theory Spec2Isabelle
  imports Main
begin

section \<open>Text, characters and exceptions\<close>

text \<open>
  The program under study is the error-log analyser \<^verbatim>\<open>analyze-errors\<close>. Its texts are
  Python \<open>str\<close> values; they are modelled as \<open>string\<close>, whose characters are the code points
  0 to 255. The character classes below are the ones Python's \<open>re\<close> module uses for \<open>str\<close>
  patterns on that range: \<open>\d\<close> is the ten ASCII digits, \<open>\w\<close> is the alphanumeric code
  points together with the underscore, and under \<open>IGNORECASE\<close> an ASCII letter of a pattern
  accepts exactly its two ASCII cases.
\<close>

definition ord :: "char \<Rightarrow> nat" where
  "ord c = of_char c"

definition is_digit :: "char \<Rightarrow> bool" where
  "is_digit c = (48 \<le> ord c \<and> ord c \<le> 57)"

definition is_word :: "char \<Rightarrow> bool" where
  "is_word c = (let n = ord c in
     (48 \<le> n \<and> n \<le> 57) \<or> (65 \<le> n \<and> n \<le> 90) \<or> n = 95 \<or> (97 \<le> n \<and> n \<le> 122)
     \<or> n = 170 \<or> n = 178 \<or> n = 179 \<or> n = 181 \<or> n = 185 \<or> n = 186
     \<or> (188 \<le> n \<and> n \<le> 190) \<or> (192 \<le> n \<and> n \<le> 214)
     \<or> (216 \<le> n \<and> n \<le> 246) \<or> 248 \<le> n)"

text \<open>The code point of a character with an ASCII capital letter turned to lower case.\<close>

definition lower_ord :: "char \<Rightarrow> nat" where
  "lower_ord c = (let n = ord c in if 65 \<le> n \<and> n \<le> 90 then n + 32 else n)"

definition bslash :: string where
  "bslash = [CHR 0x5C]"

definition apos :: string where
  "apos = [CHR 0x27]"

text \<open>
  The exceptions the modelled code can raise, each with the text \<open>str(e)\<close> gives. A
  function that can raise returns \<open>exn + 'a\<close>, with \<open>Inl\<close> for the exception.
\<close>

datatype exn =
    TypeError string
  | ValueError string
  | AttributeError string

fun exn_text :: "exn \<Rightarrow> string" where
  "exn_text (TypeError t) = t"
| "exn_text (ValueError t) = t"
| "exn_text (AttributeError t) = t"

text \<open>A value that is a \<open>str\<close> or \<open>None\<close>, as an f-string renders it.\<close>

fun fstr :: "string option \<Rightarrow> string" where
  "fstr None = ''None''"
| "fstr (Some s) = s"

text \<open>\<open>sep.join(xs)\<close>.\<close>

fun py_join :: "string \<Rightarrow> string list \<Rightarrow> string" where
  "py_join sep [] = []"
| "py_join sep [x] = x"
| "py_join sep (x # y # ys) = x @ sep @ py_join sep (y # ys)"

text \<open>\<open>sub in s\<close> for two texts: \<open>sub\<close> occurs in \<open>s\<close> as a contiguous piece.\<close>

fun py_in :: "string \<Rightarrow> string \<Rightarrow> bool" where
  "py_in sub [] = (sub = [])"
| "py_in sub (c # cs) = (take (length sub) (c # cs) = sub \<or> py_in sub cs)"

subsection \<open>Decimal numerals\<close>

text \<open>\<open>str(n)\<close> for an integer: the decimal digits, with a minus sign when negative.\<close>

fun dec :: "nat \<Rightarrow> string" where
  "dec n = (if n < 10 then [char_of (48 + n)] else dec (n div 10) @ [char_of (48 + n mod 10)])"

declare dec.simps [simp del]

definition py_str_int :: "int \<Rightarrow> string" where
  "py_str_int i = (if i < 0 then CHR ''-'' # dec (nat (- i)) else dec (nat i))"

definition digits_val :: "string \<Rightarrow> int" where
  "digits_val s = foldl (\<lambda>a c. 10 * a + (int (ord c) - 48)) 0 s"

text \<open>
  \<open>int(s)\<close> on a text of decimal digits. Any other text is reported as a \<open>ValueError\<close>;
  \<open>int\<close> accepts a few more spellings (a sign, surrounding blanks, underscores), which the
  one call in the source never passes, since its argument is a group of three digits.
\<close>

definition py_int :: "string \<Rightarrow> exn + int" where
  "py_int s =
     (if s \<noteq> [] \<and> list_all is_digit s
      then Inr (digits_val s)
      else Inl (ValueError (''invalid literal for int() with base 10: '' @ apos @ s @ apos)))"

section \<open>Regular expressions\<close>

text \<open>
  The patterns of the source use a small part of Python's \<open>re\<close> syntax: literal text,
  the classes \<open>.\<close>, \<open>\w\<close>, \<open>\d\<close>, \<open>[^c]\<close> and \<open>[cd]\<close>, the repetitions \<open>*\<close>, \<open>+\<close>, \<open>*?\<close>,
  \<open>+?\<close> and \<open>{n}\<close> of a class, the greedy option \<open>?\<close>, alternation, and numbered groups.
  A compiled pattern is a term of \<open>re\<close>.
\<close>

datatype cset = AnyChar | Word | Digit | NotChr char | OneOf string

datatype re =
    Lit string
  | One cset
  | Rep cset nat bool
  | Times cset nat
  | Opt re
  | Alt re re
  | Seq "re list"
  | Grp nat re

definition chr_eq :: "bool \<Rightarrow> char \<Rightarrow> char \<Rightarrow> bool" where
  "chr_eq ic c d = (if ic then lower_ord c = lower_ord d else c = d)"

fun cmatch :: "bool \<Rightarrow> cset \<Rightarrow> char \<Rightarrow> bool" where
  "cmatch ic AnyChar d = (d \<noteq> CHR 0x0A)"
| "cmatch ic Word d = is_word d"
| "cmatch ic Digit d = is_digit d"
| "cmatch ic (NotChr c) d = (\<not> chr_eq ic c d)"
| "cmatch ic (OneOf cs) d = list_ex (\<lambda>c. chr_eq ic c d) cs"

fun strip_lit :: "bool \<Rightarrow> string \<Rightarrow> string \<Rightarrow> string option" where
  "strip_lit ic [] s = Some s"
| "strip_lit ic (c # cs) [] = None"
| "strip_lit ic (c # cs) (d # ds) = (if chr_eq ic c d then strip_lit ic cs ds else None)"

text \<open>
  The matcher is a backtracking one, as Python's is. A state is the text still to read and
  the groups captured so far. \<open>ms ic r st\<close> lists every way \<open>r\<close> can match at the head of
  the text, in the order in which backtracking tries them: a greedy repetition offers
  the longest run first, a lazy one the shortest, an alternation its left branch first.
  The first state of the list is the match Python reports. \<open>ic\<close> is the \<open>IGNORECASE\<close> flag.
  \<open>Rep cs n greedy\<close> is \<open>n\<close> or more characters of \<open>cs\<close>; \<open>Times cs n\<close> is exactly \<open>n\<close>.
\<close>

type_synonym caps = "(nat \<times> string) list"
type_synonym mstate = "string \<times> caps"

fun ms :: "bool \<Rightarrow> re \<Rightarrow> mstate \<Rightarrow> mstate list"
  and ms_seq :: "bool \<Rightarrow> re list \<Rightarrow> mstate \<Rightarrow> mstate list" where
  "ms ic (Lit l) st = (case strip_lit ic l (fst st) of None \<Rightarrow> [] | Some r \<Rightarrow> [(r, snd st)])"
| "ms ic (One cs) st =
     (case fst st of [] \<Rightarrow> [] | d # ds \<Rightarrow> if cmatch ic cs d then [(ds, snd st)] else [])"
| "ms ic (Rep cs n greedy) st =
     (let k = length (takeWhile (cmatch ic cs) (fst st));
          counts = (if greedy then rev [n..<Suc k] else [n..<Suc k])
      in map (\<lambda>j. (drop j (fst st), snd st)) counts)"
| "ms ic (Times cs n) st =
     (if n \<le> length (takeWhile (cmatch ic cs) (fst st)) then [(drop n (fst st), snd st)] else [])"
| "ms ic (Opt r) st = ms ic r st @ [st]"
| "ms ic (Alt r1 r2) st = ms ic r1 st @ ms ic r2 st"
| "ms ic (Seq rs) st = ms_seq ic rs st"
| "ms ic (Grp i r) st =
     map (\<lambda>st'. (fst st', (i, take (length (fst st) - length (fst st')) (fst st)) # snd st'))
       (ms ic r st)"
| "ms_seq ic [] st = [st]"
| "ms_seq ic (r # rs) st = concat (map (ms_seq ic rs) (ms ic r st))"

text \<open>
  A match object: the span \<open>[m_start, m_end)\<close> in the searched text, the matched text
  (\<open>group(0)\<close>) and the captured groups. \<open>group m i\<close> is \<open>None\<close> for a group that took no
  part in the match, as in Python.
\<close>

record rmatch =
  m_start :: nat
  m_end :: nat
  m_text :: string
  m_caps :: caps

definition group :: "rmatch \<Rightarrow> nat \<Rightarrow> string option" where
  "group m i = (if i = 0 then Some (m_text m) else map_of (m_caps m) i)"

text \<open>
  \<open>re_scan ic r adv pos s\<close> looks for the leftmost match in \<open>s\<close>, the part of the text that
  starts at position \<open>pos\<close>. With \<open>adv\<close> set, a match at \<open>pos\<close> itself must be non-empty:
  that is how \<open>finditer\<close> resumes after an empty match.
\<close>

fun re_scan :: "bool \<Rightarrow> re \<Rightarrow> bool \<Rightarrow> nat \<Rightarrow> string \<Rightarrow> rmatch option" where
  "re_scan ic r adv pos s =
     (case filter (\<lambda>st. \<not> adv \<or> length (fst st) < length s) (ms ic r (s, [])) of
        st # _ \<Rightarrow> Some \<lparr>m_start = pos, m_end = pos + (length s - length (fst st)),
                        m_text = take (length s - length (fst st)) s, m_caps = snd st\<rparr>
      | [] \<Rightarrow> (case s of [] \<Rightarrow> None | _ # t \<Rightarrow> re_scan ic r False (Suc pos) t))"

declare re_scan.simps [simp del]

text \<open>\<open>re.search(r, s)\<close>, with \<open>ic\<close> for the flag \<open>re.IGNORECASE\<close>.\<close>

definition re_search :: "bool \<Rightarrow> re \<Rightarrow> string \<Rightarrow> rmatch option" where
  "re_search ic r s = re_scan ic r False 0 s"

lemma strip_lit_length: "strip_lit ic l s = Some r \<Longrightarrow> length r \<le> length s"
  by (induction ic l s rule: strip_lit.induct) (auto split: if_splits)

lemma ms_length_pair:
  "(s', c') \<in> set (ms ic r st) \<Longrightarrow> length s' \<le> length (fst st)"
  "(s', c') \<in> set (ms_seq ic rs st) \<Longrightarrow> length s' \<le> length (fst st)"
proof (induction ic r st and ic rs st arbitrary: s' c' and s' c' rule: ms_ms_seq.induct)
  case (1 ic l st)
  then show ?case
    by (cases "strip_lit ic l (fst st)") (auto dest: strip_lit_length)
next
  case (2 ic cs st)
  then show ?case by (cases "fst st") (auto split: if_splits)
next
  case (3 ic cs n greedy st)
  then show ?case by (auto simp: Let_def split: if_splits)
next
  case (4 ic cs n st)
  then show ?case by (auto split: if_splits)
next
  case (5 ic r st)
  then show ?case by auto
next
  case (6 ic r1 r2 st)
  then show ?case by auto
next
  case (7 ic rs st)
  then show ?case by auto
next
  case (8 ic i r st)
  then show ?case by auto
next
  case (9 ic st)
  then show ?case by auto
next
  case (10 ic r rs st)
  from "10.prems" obtain s1 c1 where m1: "(s1, c1) \<in> set (ms ic r st)"
    and m2: "(s', c') \<in> set (ms_seq ic rs (s1, c1))"
    by auto
  from "10.IH"(1) [OF m1] have "length s1 \<le> length (fst st)" .
  moreover from "10.IH"(2) [OF m1 m2] have "length s' \<le> length s1" by simp
  ultimately show ?case by simp
qed

lemma ms_length: "st' \<in> set (ms ic r st) \<Longrightarrow> length (fst st') \<le> length (fst st)"
  using ms_length_pair(1) [of "fst st'" "snd st'" ic r st] by simp

lemma re_scan_span:
  "re_scan ic r adv pos s = Some m \<Longrightarrow>
     pos \<le> m_start m \<and> m_start m \<le> m_end m \<and> m_end m \<le> pos + length s
     \<and> (adv \<longrightarrow> pos < m_end m)"
proof (induction ic r adv pos s arbitrary: m rule: re_scan.induct)
  case (1 ic r adv pos s)
  show ?case
  proof (cases "filter (\<lambda>st. \<not> adv \<or> length (fst st) < length s) (ms ic r (s, []))")
    case Nil
    with "1.prems" obtain c t where s: "s = c # t"
      and rec: "re_scan ic r False (Suc pos) t = Some m"
      by (auto simp: re_scan.simps [of ic r adv pos s] split: list.splits)
    from "1.IH" [OF Nil s rec] s show ?thesis by auto
  next
    case (Cons st sts)
    then have "st \<in> set (filter (\<lambda>st. \<not> adv \<or> length (fst st) < length s) (ms ic r (s, [])))"
      by simp
    then have mem: "st \<in> set (ms ic r (s, []))" and adv: "\<not> adv \<or> length (fst st) < length s"
      by auto
    from ms_length [OF mem] have "length (fst st) \<le> length s" by simp
    with Cons "1.prems" adv show ?thesis
      by (auto simp: re_scan.simps [of ic r adv pos s])
  qed
qed

text \<open>
  \<open>re.finditer(r, s)\<close>: the matches from left to right, none overlapping another. The
  search resumes where the last match ended; after an empty match the next one at the
  same place must be non-empty.
\<close>

function finditer_from :: "re \<Rightarrow> bool \<Rightarrow> nat \<Rightarrow> string \<Rightarrow> rmatch list" where
  "finditer_from r adv pos s =
     (case re_scan False r adv pos s of
        None \<Rightarrow> []
      | Some m \<Rightarrow>
          m # finditer_from r (m_end m = m_start m) (m_end m) (drop (m_end m - pos) s))"
  by pat_completeness auto
termination
proof (relation "measure (\<lambda>(r, adv, pos, s). 2 * length s + (if adv then 0 else 1))", goal_cases)
  case 1
  show ?case by simp
next
  case (2 r adv pos s m)
  from re_scan_span [OF 2] show ?case by (cases s) auto
qed

declare finditer_from.simps [simp del]

definition re_finditer :: "re \<Rightarrow> string \<Rightarrow> rmatch list" where
  "re_finditer r s = finditer_from r False 0 s"

section \<open>The JSON decoder\<close>

text \<open>
  \<open>json.loads\<close> turns a text into a Python value, or raises \<open>JSONDecodeError\<close>. The
  values it can produce are \<open>None\<close>, the two booleans, integers, floats, strings, lists
  and dictionaries. A dictionary keeps its keys in the order of first insertion, and a
  repeated key keeps its last value: \<open>JObj\<close> holds the items in that form. A float is
  kept as the literal that denotes it, since the model has no double-precision
  arithmetic.
\<close>

datatype json =
    JNull
  | JBool bool
  | JInt int
  | JFloat string
  | JStr string
  | JArr "json list"
  | JObj "(string \<times> json) list"

definition is_ws :: "char \<Rightarrow> bool" where
  "is_ws c = (ord c = 32 \<or> ord c = 9 \<or> ord c = 10 \<or> ord c = 13)"

definition hex_val :: "char \<Rightarrow> nat option" where
  "hex_val c = (let n = ord c in
     if 48 \<le> n \<and> n \<le> 57 then Some (n - 48)
     else if 97 \<le> n \<and> n \<le> 102 then Some (n - 87)
     else if 65 \<le> n \<and> n \<le> 70 then Some (n - 55)
     else None)"

fun hex4 :: "string \<Rightarrow> (nat \<times> string) option" where
  "hex4 (a # b # c # d # rest) =
     (case (hex_val a, hex_val b, hex_val c, hex_val d) of
        (Some x, Some y, Some z, Some w) \<Rightarrow> Some (((x * 16 + y) * 16 + z) * 16 + w, rest)
      | _ \<Rightarrow> None)"
| "hex4 _ = None"

definition simple_escape :: "char \<Rightarrow> char option" where
  "simple_escape e =
     (if e = CHR 0x22 then Some (CHR 0x22)
      else if e = CHR 0x5C then Some (CHR 0x5C)
      else if e = CHR ''/'' then Some (CHR ''/'')
      else if e = CHR ''b'' then Some (CHR 0x08)
      else if e = CHR ''f'' then Some (CHR 0x0C)
      else if e = CHR ''n'' then Some (CHR 0x0A)
      else if e = CHR ''r'' then Some (CHR 0x0D)
      else if e = CHR ''t'' then Some (CHR 0x09)
      else None)"

text \<open>
  A backslash-u escape names a code point. Below 256 it is a character of the model; a
  code point beyond that has no character here, and the escape then decodes to a
  character that the model leaves unspecified.
\<close>

definition wide_char :: "nat \<Rightarrow> char" where
  "wide_char = (SOME f. True)"

definition code_point :: "nat \<Rightarrow> char" where
  "code_point n = (if n < 256 then char_of n else wide_char n)"

text \<open>
  \<open>u_escape s\<close> reads the four hexadecimal digits that follow the escape letter, and a second
  escape when the two form a surrogate pair; it gives the code point and the rest.
\<close>
definition u_escape :: "string \<Rightarrow> (nat \<times> string) option" where
  "u_escape s =
     (case hex4 s of
        None \<Rightarrow> None
      | Some (hi, rest) \<Rightarrow>
          if 0xD800 \<le> hi \<and> hi \<le> 0xDBFF then
            (case rest of
               b # u # rest' \<Rightarrow>
                 if b = CHR 0x5C \<and> u = CHR ''u'' then
                   (case hex4 rest' of
                      None \<Rightarrow> None
                    | Some (lo, rest'') \<Rightarrow>
                        if 0xDC00 \<le> lo \<and> lo \<le> 0xDFFF
                        then Some (0x10000 + (hi - 0xD800) * 1024 + (lo - 0xDC00), rest'')
                        else Some (hi, rest))
                 else Some (hi, rest)
             | _ \<Rightarrow> Some (hi, rest))
          else Some (hi, rest))"

lemma hex4_shorter: "hex4 s = Some (n, r) \<Longrightarrow> length r < length s"
  by (induction s rule: hex4.induct) (auto split: option.splits)

lemma u_escape_shorter: "u_escape s = Some (n, r) \<Longrightarrow> length r < length s"
  by (auto simp: u_escape_def split: option.splits if_splits list.splits dest!: hex4_shorter)

text \<open>
  \<open>scan_string s\<close> reads a string literal whose opening quote has been consumed: the
  decoded text and what follows the closing quote. A control character inside the literal
  and an unknown escape are errors.
\<close>

function scan_string :: "string \<Rightarrow> (string \<times> string) option" where
  "scan_string [] = None"
| "scan_string (c # cs) =
     (if c = CHR 0x22 then Some ([], cs)
      else if c = CHR 0x5C then
        (case cs of
           [] \<Rightarrow> None
         | e # es \<Rightarrow>
             if e = CHR ''u'' then
               (case u_escape es of
                  None \<Rightarrow> None
                | Some (n, rest) \<Rightarrow>
                    map_option (\<lambda>(str, r). (code_point n # str, r)) (scan_string rest))
             else
               (case simple_escape e of
                  None \<Rightarrow> None
                | Some ch \<Rightarrow> map_option (\<lambda>(str, r). (ch # str, r)) (scan_string es)))
      else if ord c < 32 then None
      else map_option (\<lambda>(str, r). (c # str, r)) (scan_string cs))"
  by pat_completeness auto
termination
  by (relation "measure length") (auto dest: u_escape_shorter)

lemma scan_string_shorter: "scan_string s = Some (str, r) \<Longrightarrow> length r < length s"
  by (induction s arbitrary: str r rule: scan_string.induct)
    (fastforce split: if_splits list.splits option.splits dest: u_escape_shorter)+

declare scan_string.simps [simp del]

text \<open>
  A number is an optional minus sign, an integer part without leading zeros, and an
  optional fraction and exponent; without the last two it is an integer.
\<close>

definition num_int :: "string \<Rightarrow> string" where
  "num_int s =
     (case s of
        [] \<Rightarrow> []
      | d # ds \<Rightarrow>
          if d = CHR ''0'' then [d]
          else if is_digit d then d # takeWhile is_digit ds
          else [])"

definition num_frac :: "string \<Rightarrow> string" where
  "num_frac s =
     (case s of
        p # q # qs \<Rightarrow> if p = CHR ''.'' \<and> is_digit q then p # takeWhile is_digit (q # qs) else []
      | _ \<Rightarrow> [])"

definition num_exp :: "string \<Rightarrow> string" where
  "num_exp s =
     (case s of
        [] \<Rightarrow> []
      | e # es \<Rightarrow>
          if e = CHR ''e'' \<or> e = CHR ''E'' then
            (let sgn = (case es of
                          [] \<Rightarrow> []
                        | x # _ \<Rightarrow> if x = CHR ''+'' \<or> x = CHR ''-'' then [x] else []);
                 dg = takeWhile is_digit (drop (length sgn) es)
             in if dg = [] then [] else e # sgn @ dg)
          else [])"

definition scan_number :: "string \<Rightarrow> (json \<times> string) option" where
  "scan_number s =
     (let sign = (if take 1 s = ''-'' then ''-'' else []);
          s1 = drop (length sign) s;
          ipart = num_int s1;
          s2 = drop (length ipart) s1;
          frac = num_frac s2;
          s3 = drop (length frac) s2;
          ex = num_exp s3;
          s4 = drop (length ex) s3
      in if ipart = [] then None
         else if frac = [] \<and> ex = []
         then Some (JInt (if sign = [] then digits_val ipart else - digits_val ipart), s4)
         else Some (JFloat (sign @ ipart @ frac @ ex), s4))"

lemma scan_number_shorter:
  assumes "scan_number s = Some (v, r)"
  shows "length r < length s"
proof -
  define s1 where "s1 = drop (length (if take 1 s = ''-'' then ''-'' else [])) s"
  define ipart where "ipart = num_int s1"
  have ne: "ipart \<noteq> []"
    using assms unfolding scan_number_def Let_def s1_def ipart_def by (auto split: if_splits)
  have le: "length ipart \<le> length s1"
    unfolding ipart_def num_int_def
    by (cases s1) (auto simp: length_takeWhile_le)
  have r: "length r \<le> length s1 - length ipart"
    using assms unfolding scan_number_def Let_def s1_def ipart_def
    by (auto split: if_splits)
  have "length s1 \<le> length s" by (simp add: s1_def)
  with ne le r show ?thesis by (cases ipart) auto
qed

text \<open>
  The decoder works in two passes. The first cuts the text into tokens: the six
  punctuation marks and the scalar values (strings, numbers and the named constants).
\<close>

datatype tok = TLBrace | TRBrace | TLBrack | TRBrack | TColon | TComma | TAtom json

definition starts_with :: "string \<Rightarrow> string \<Rightarrow> bool" where
  "starts_with p s = (take (length p) s = p)"

definition next_tok :: "string \<Rightarrow> (tok \<times> string) option" where
  \<open>next_tok s =
     (case s of
        [] \<Rightarrow> None
      | c # cs \<Rightarrow>
          if c = CHR 0x22 then map_option (\<lambda>(str, r). (TAtom (JStr str), r)) (scan_string cs)
          else if c = CHR ''{'' then Some (TLBrace, cs)
          else if c = CHR ''}'' then Some (TRBrace, cs)
          else if c = CHR ''['' then Some (TLBrack, cs)
          else if c = CHR '']'' then Some (TRBrack, cs)
          else if c = CHR '':'' then Some (TColon, cs)
          else if c = CHR '','' then Some (TComma, cs)
          else if starts_with ''null'' s then Some (TAtom JNull, drop 4 s)
          else if starts_with ''true'' s then Some (TAtom (JBool True), drop 4 s)
          else if starts_with ''false'' s then Some (TAtom (JBool False), drop 5 s)
          else if starts_with ''NaN'' s then Some (TAtom (JFloat ''NaN''), drop 3 s)
          else if starts_with ''Infinity'' s then Some (TAtom (JFloat ''Infinity''), drop 8 s)
          else if starts_with ''-Infinity'' s then Some (TAtom (JFloat ''-Infinity''), drop 9 s)
          else map_option (\<lambda>(v, r). (TAtom v, r)) (scan_number s))\<close>

lemma next_tok_shorter: "next_tok s = Some (t, r) \<Longrightarrow> length r < length s"
  by (auto simp: next_tok_def starts_with_def split: list.splits if_splits
      dest: scan_string_shorter scan_number_shorter)

function lex :: "string \<Rightarrow> tok list option" where
  "lex s =
     (case dropWhile is_ws s of
        [] \<Rightarrow> Some []
      | c # cs \<Rightarrow>
          (case next_tok (c # cs) of
             None \<Rightarrow> None
           | Some (t, r) \<Rightarrow> map_option (Cons t) (lex r)))"
  by pat_completeness auto
termination
proof (relation "measure length", goal_cases)
  case 1 show ?case by simp
next
  case (2 s c cs x t r)
  then have "length r < length (c # cs)" by (auto dest: next_tok_shorter)
  also have "length (c # cs) \<le> length s"
    using 2(1) length_dropWhile_le [of is_ws s] by simp
  finally show ?case by simp
qed

declare lex.simps [simp del]

text \<open>
  The second pass reads the tokens with a stack of the containers that are still open.
  \<open>dict_set\<close> is the assignment \<open>d[k] = v\<close>.
\<close>

fun dict_set :: "(string \<times> json) list \<Rightarrow> string \<Rightarrow> json \<Rightarrow> (string \<times> json) list" where
  "dict_set [] k v = [(k, v)]"
| "dict_set ((k', v') # d) k v = (if k' = k then (k, v) # d else (k', v') # dict_set d k v)"

datatype frame = FArr "json list" | FObj "(string \<times> json) list" | FKey string

datatype pmode = MVal | MValOrEnd | MKeyOrEnd | MKey | MColon | MNext | MDone json

type_synonym pstate = "pmode \<times> frame list"

definition complete :: "json \<Rightarrow> frame list \<Rightarrow> pstate option" where
  "complete v st =
     (case st of
        [] \<Rightarrow> Some (MDone v, [])
      | FArr acc # st' \<Rightarrow> Some (MNext, FArr (acc @ [v]) # st')
      | FKey k # FObj d # st' \<Rightarrow> Some (MNext, FObj (dict_set d k v) # st')
      | _ \<Rightarrow> None)"

definition pstep :: "pstate \<Rightarrow> tok \<Rightarrow> pstate option" where
  "pstep ps t =
     (let st = snd ps in
      case fst ps of
        MVal \<Rightarrow>
          (case t of
             TAtom v \<Rightarrow> complete v st
           | TLBrack \<Rightarrow> Some (MValOrEnd, FArr [] # st)
           | TLBrace \<Rightarrow> Some (MKeyOrEnd, FObj [] # st)
           | _ \<Rightarrow> None)
      | MValOrEnd \<Rightarrow>
          (case t of
             TAtom v \<Rightarrow> complete v st
           | TLBrack \<Rightarrow> Some (MValOrEnd, FArr [] # st)
           | TLBrace \<Rightarrow> Some (MKeyOrEnd, FObj [] # st)
           | TRBrack \<Rightarrow> (case st of FArr acc # st' \<Rightarrow> complete (JArr acc) st' | _ \<Rightarrow> None)
           | _ \<Rightarrow> None)
      | MKeyOrEnd \<Rightarrow>
          (case t of
             TAtom (JStr k) \<Rightarrow> Some (MColon, FKey k # st)
           | TRBrace \<Rightarrow> (case st of FObj d # st' \<Rightarrow> complete (JObj d) st' | _ \<Rightarrow> None)
           | _ \<Rightarrow> None)
      | MKey \<Rightarrow> (case t of TAtom (JStr k) \<Rightarrow> Some (MColon, FKey k # st) | _ \<Rightarrow> None)
      | MColon \<Rightarrow> (case t of TColon \<Rightarrow> Some (MVal, st) | _ \<Rightarrow> None)
      | MNext \<Rightarrow>
          (case st of
             FArr acc # st' \<Rightarrow>
               (case t of
                  TComma \<Rightarrow> Some (MVal, st)
                | TRBrack \<Rightarrow> complete (JArr acc) st'
                | _ \<Rightarrow> None)
           | FObj d # st' \<Rightarrow>
               (case t of
                  TComma \<Rightarrow> Some (MKey, st)
                | TRBrace \<Rightarrow> complete (JObj d) st'
                | _ \<Rightarrow> None)
           | _ \<Rightarrow> None)
      | MDone v \<Rightarrow> None)"

fun prun :: "pstate \<Rightarrow> tok list \<Rightarrow> json option" where
  "prun ps [] = (case fst ps of MDone v \<Rightarrow> Some v | _ \<Rightarrow> None)"
| "prun ps (t # ts) = (case pstep ps t of None \<Rightarrow> None | Some ps' \<Rightarrow> prun ps' ts)"

text \<open>\<open>json.loads(s)\<close>; \<open>None\<close> stands for the \<open>JSONDecodeError\<close>.\<close>

definition json_loads :: "string \<Rightarrow> json option" where
  "json_loads s = (case lex s of None \<Rightarrow> None | Some ts \<Rightarrow> prun (MVal, []) ts)"

section \<open>Python values as text\<close>

text \<open>
  \<open>repr\<close> of a string picks the quote (a double quote only when the text holds an
  apostrophe and no double quote), escapes the quote, the backslash and the three
  layout characters, and writes every other non-printable character in hexadecimal.
\<close>

definition hex_digit :: "nat \<Rightarrow> char" where
  "hex_digit n = (if n < 10 then char_of (48 + n) else char_of (87 + n))"

definition repr_char :: "char \<Rightarrow> char \<Rightarrow> string" where
  "repr_char q c =
     (let n = ord c in
      if c = q \<or> n = 92 then [CHR 0x5C, c]
      else if n = 9 then bslash @ ''t''
      else if n = 10 then bslash @ ''n''
      else if n = 13 then bslash @ ''r''
      else if n < 32 \<or> n = 127 \<or> (128 \<le> n \<and> n \<le> 160) \<or> n = 173
      then bslash @ ''x'' @ [hex_digit (n div 16), hex_digit (n mod 16)]
      else [c])"

definition repr_str :: "string \<Rightarrow> string" where
  "repr_str s =
     (let q = (if CHR 0x27 \<in> set s \<and> CHR 0x22 \<notin> set s then CHR 0x22 else CHR 0x27)
      in q # concat (map (repr_char q) s) @ [q])"

text \<open>
  The text of a float. The three named constants print as Python prints them; for a
  numeric literal the digits Python prints come from double-precision conversion, which
  the model leaves unspecified.
\<close>

definition float_digits :: "string \<Rightarrow> string" where
  "float_digits = (SOME f. True)"

definition float_repr :: "string \<Rightarrow> string" where
  "float_repr l =
     (if l = ''NaN'' then ''nan''
      else if l = ''Infinity'' then ''inf''
      else if l = ''-Infinity'' then ''-inf''
      else float_digits l)"

fun py_repr :: "json \<Rightarrow> string" where
  "py_repr JNull = ''None''"
| "py_repr (JBool b) = (if b then ''True'' else ''False'')"
| "py_repr (JInt i) = py_str_int i"
| "py_repr (JFloat l) = float_repr l"
| "py_repr (JStr s) = repr_str s"
| "py_repr (JArr xs) = ''['' @ py_join '', '' (map py_repr xs) @ '']''"
| "py_repr (JObj d) =
     ''{'' @ py_join '', '' (map (\<lambda>kv. repr_str (fst kv) @ '': '' @ py_repr (snd kv)) d) @ ''}''"

text \<open>\<open>str(v)\<close>: a string is its own text, any other value prints as its \<open>repr\<close>.\<close>

definition py_str :: "json \<Rightarrow> string" where
  "py_str v = (case v of JStr s \<Rightarrow> s | _ \<Rightarrow> py_repr v)"

fun type_name :: "json \<Rightarrow> string" where
  "type_name JNull = ''NoneType''"
| "type_name (JBool b) = ''bool''"
| "type_name (JInt i) = ''int''"
| "type_name (JFloat l) = ''float''"
| "type_name (JStr s) = ''str''"
| "type_name (JArr xs) = ''list''"
| "type_name (JObj d) = ''dict''"

text \<open>
  \<open>v + s\<close> and \<open>s + v\<close> where \<open>s\<close> is a string and \<open>v\<close> a decoded value: the concatenation
  when \<open>v\<close> is a string too, and otherwise the \<open>TypeError\<close> Python raises.
\<close>

definition value_plus_str :: "json \<Rightarrow> string \<Rightarrow> exn + string" where
  \<open>value_plus_str v s =
     (case v of
        JStr a \<Rightarrow> Inr (a @ s)
      | JArr xs \<Rightarrow> Inl (TypeError ''can only concatenate list (not "str") to list'')
      | _ \<Rightarrow> Inl (TypeError (''unsupported operand type(s) for +: '' @ apos @ type_name v @ apos
                              @ '' and 'str'' @ apos)))\<close>

definition str_plus_value :: "string \<Rightarrow> json \<Rightarrow> exn + string" where
  \<open>str_plus_value s v =
     (case v of
        JStr b \<Rightarrow> Inr (s @ b)
      | _ \<Rightarrow> Inl (TypeError (''can only concatenate str (not "'' @ type_name v @ ''") to str'')))\<close>

text \<open>\<open>d.get(k, default)\<close> on the items of a dictionary.\<close>

definition dict_get :: "(string \<times> json) list \<Rightarrow> string \<Rightarrow> json \<Rightarrow> json" where
  "dict_get d k dflt = (case map_of d k of Some v \<Rightarrow> v | None \<Rightarrow> dflt)"

section \<open>The analyser\<close>

subsection \<open>Data\<close>

record command_result =
  cmd_success :: bool
  cmd_output :: string
  cmd_error :: "string option"

text \<open>
  A stack frame is the dictionary with the keys \<open>file\<close>, \<open>line\<close> and \<open>function\<close>; a
  matched error the one with \<open>pattern\<close>, \<open>match\<close> and \<open>explanation\<close>; the analysis result
  the one with \<open>format_detected\<close>, \<open>errors_found\<close>, \<open>suggestions\<close> and \<open>stack_frames\<close>.
  The fields of a frame hold what \<open>match.group\<close> returns, a string or \<open>None\<close>.
\<close>

record stack_frame =
  frame_file :: "string option"
  frame_line :: "string option"
  frame_function :: "string option"

record matched_error =
  err_pattern :: string
  err_match :: string
  err_explanation :: string

record analysis =
  format_detected :: string
  errors_found :: "matched_error list"
  suggestions :: "string list"
  stack_frames :: "stack_frame list"

subsection \<open>The status table\<close>

definition explanations :: "(int \<times> string) list" where
  "explanations =
    [(400, ''Bad Request - The server couldn't understand the request. Check request format.''),
     (401, ''Unauthorized - Authentication required. Check API keys or login credentials.''),
     (403, ''Forbidden - Access denied. Check permissions and authorization.''),
     (404, ''Not Found - The resource doesn't exist. Verify the URL.''),
     (405, ''Method Not Allowed - Wrong HTTP method. Check if using GET/POST/PUT/DELETE correctly.''),
     (408, ''Request Timeout - The request took too long. Try again or increase timeout.''),
     (429, ''Too Many Requests - Rate limited. Implement backoff and retry logic.''),
     (500, ''Internal Server Error - Server-side issue. Check server logs.''),
     (502, ''Bad Gateway - Proxy/load balancer issue. Check upstream services.''),
     (503, ''Service Unavailable - Server is overloaded or under maintenance.''),
     (504, ''Gateway Timeout - Upstream server didn't respond in time.'')]"

definition get_http_error_explanation :: "int \<Rightarrow> string" where
  "get_http_error_explanation status_code =
     (case map_of explanations status_code of
        Some e \<Rightarrow> e
      | None \<Rightarrow> ''HTTP error '' @ py_str_int status_code @ ''. Check the API documentation.'')"

subsection \<open>The signature registry\<close>

text \<open>
  A signature is the pattern as the source writes it, the pattern compiled, and the
  function from a match to the explanation. \<open>g m i\<close> is \<open>m.group(i)\<close> inside an f-string,
  and \<open>split_first s\<close> is \<open>s.split('/')[0]\<close>. The registry \<open>ERROR_PATTERNS\<close> lists the
  nineteen signatures in the order of the source.
\<close>

type_synonym signature = "string \<times> re \<times> (rmatch \<Rightarrow> exn + string)"

definition g :: "rmatch \<Rightarrow> nat \<Rightarrow> string" where
  "g m i = fstr (group m i)"

definition split_first :: "string \<Rightarrow> string" where
  "split_first s = takeWhile (\<lambda>c. c \<noteq> CHR ''/'') s"

definition word1 :: re where
  "word1 = Rep Word 1 True"

definition digit1 :: re where
  "digit1 = Rep Digit 1 True"

definition any1 :: re where
  "any1 = Rep AnyChar 1 True"

definition any0 :: re where
  "any0 = Rep AnyChar 0 True"

definition quote :: re where
  \<open>quote = One (OneOf [CHR 0x27, CHR 0x22])\<close>

definition sig_module_not_found :: signature where
  \<open>sig_module_not_found =
    (''ModuleNotFoundError: No module named '('' @ bslash @ ''w+)'' @ apos,
     Seq [Lit (''ModuleNotFoundError: No module named '' @ apos),
          Grp 1 word1,
          Lit apos],
     \<lambda>m. Inr (''Python module '' @ apos @ g m 1 @ ''' is not installed. Try: pip install ''
              @ g m 1))\<close>

definition sig_import_error :: signature where
  \<open>sig_import_error =
    (''ImportError: cannot import name '('' @ bslash @ ''w+)' from '('' @ bslash @ ''w+)''
     @ apos,
     Seq [Lit (''ImportError: cannot import name '' @ apos),
          Grp 1 word1,
          Lit (''' from '' @ apos),
          Grp 2 word1,
          Lit apos],
     \<lambda>m. Inr (''Cannot import '' @ apos @ g m 1 @ ''' from '' @ apos @ g m 2
              @ '''. Check if it exists or if there's a circular import.''))\<close>

definition sig_type_arity :: signature where
  \<open>sig_type_arity =
    (''TypeError: ('' @ bslash @ ''w+)'' @ bslash @ ''('' @ bslash @ '') takes ('' @ bslash
     @ ''d+) positional arguments? but ('' @ bslash @ ''d+) (?:was|were) given'',
     Seq [Lit ''TypeError: '',
          Grp 1 word1,
          Lit ''() takes '',
          Grp 2 digit1,
          Lit '' positional argument'',
          Opt (Lit ''s''),
          Lit '' but '',
          Grp 3 digit1,
          Lit '' '',
          Alt (Lit ''was'') (Lit ''were''),
          Lit '' given''],
     \<lambda>m. Inr (''Function '' @ apos @ g m 1 @ ''' expects '' @ g m 2
              @ '' argument(s) but received '' @ g m 3 @ ''.''))\<close>

definition sig_attribute_error :: signature where
  \<open>sig_attribute_error =
    (''AttributeError: '('' @ bslash @ ''w+)' object has no attribute '('' @ bslash @ ''w+)''
     @ apos,
     Seq [Lit (''AttributeError: '' @ apos),
          Grp 1 word1,
          Lit (''' object has no attribute '' @ apos),
          Grp 2 word1,
          Lit apos],
     \<lambda>m. Inr (''Object of type '' @ apos @ g m 1 @ ''' doesn't have attribute '' @ apos @ g m 2
              @ '''. Check spelling or if the object is the correct type.''))\<close>

definition sig_key_error :: signature where
  \<open>sig_key_error =
    (''KeyError: ['' @ apos @ bslash @ ''"]?('' @ bslash @ ''w+)['' @ apos @ bslash @ ''"]?'',
     Seq [Lit ''KeyError: '',
          Opt quote,
          Grp 1 word1,
          Opt quote],
     \<lambda>m. Inr (''Dictionary key '' @ apos @ g m 1
              @ ''' not found. Use .get() for safe access or check if key exists.''))\<close>

definition sig_value_error :: signature where
  \<open>sig_value_error =
    (''ValueError: (.+)'',
     Seq [Lit ''ValueError: '',
          Grp 1 any1],
     \<lambda>m. Inr (''Invalid value: '' @ g m 1 @ ''. Validate input data before processing.''))\<close>

definition sig_file_not_found :: signature where
  \<open>sig_file_not_found =
    (''FileNotFoundError: '' @ bslash @ ''[Errno 2'' @ bslash
     @ ''] No such file or directory: ['' @ apos @ bslash @ ''"](.+)['' @ apos @ bslash @ ''"]'',
     Seq [Lit ''FileNotFoundError: [Errno 2] No such file or directory: '',
          quote,
          Grp 1 any1,
          quote],
     \<lambda>m. Inr (''File not found: '' @ apos @ g m 1
              @ '''. Check the path exists and has correct permissions.''))\<close>

definition sig_permission_error :: signature where
  \<open>sig_permission_error =
    (''PermissionError: '' @ bslash @ ''[Errno 13'' @ bslash @ ''] Permission denied: ['' @ apos
     @ bslash @ ''"](.+)['' @ apos @ bslash @ ''"]'',
     Seq [Lit ''PermissionError: [Errno 13] Permission denied: '',
          quote,
          Grp 1 any1,
          quote],
     \<lambda>m. Inr (''Permission denied for: '' @ apos @ g m 1
              @ '''. Check file permissions or run with elevated privileges.''))\<close>

definition sig_reference_error :: signature where
  \<open>sig_reference_error =
    (''ReferenceError: ('' @ bslash @ ''w+) is not defined'',
     Seq [Lit ''ReferenceError: '',
          Grp 1 word1,
          Lit '' is not defined''],
     \<lambda>m. Inr (''Variable '' @ apos @ g m 1
              @ ''' is not defined. Check for typos or ensure it's in scope.''))\<close>

definition sig_null_access :: signature where
  \<open>sig_null_access =
    (''TypeError: Cannot read propert(?:y|ies) ['' @ apos @ bslash @ ''"]?('' @ bslash
     @ ''w+)['' @ apos @ bslash @ ''"]? of (undefined|null)'',
     Seq [Lit ''TypeError: Cannot read propert'',
          Alt (Lit ''y'') (Lit ''ies''),
          Lit '' '',
          Opt quote,
          Grp 1 word1,
          Opt quote,
          Lit '' of '',
          Grp 2 (Alt (Lit ''undefined'') (Lit ''null''))],
     \<lambda>m. Inr (''Tried to access '' @ apos @ g m 1 @ ''' on '' @ g m 2
              @ ''. Add null checks or optional chaining (?.).''))\<close>

definition sig_syntax_error :: signature where
  \<open>sig_syntax_error =
    (''SyntaxError: Unexpected token (.+)'',
     Seq [Lit ''SyntaxError: Unexpected token '',
          Grp 1 any1],
     \<lambda>m. Inr (''Syntax error: unexpected '' @ apos @ g m 1
              @ '''. Check for missing brackets, quotes, or semicolons.''))\<close>

definition sig_enoent :: signature where
  \<open>sig_enoent =
    (''Error: ENOENT: no such file or directory, (?:open|stat) ['' @ apos @ bslash @ ''"](.+)[''
     @ apos @ bslash @ ''"]'',
     Seq [Lit ''Error: ENOENT: no such file or directory, '',
          Alt (Lit ''open'') (Lit ''stat''),
          Lit '' '',
          quote,
          Grp 1 any1,
          quote],
     \<lambda>m. Inr (''Node.js cannot find file: '' @ apos @ g m 1 @ '''. Verify the path exists.''))\<close>

definition sig_node_module :: signature where
  \<open>sig_node_module =
    (''Error: Cannot find module ['' @ apos @ bslash @ ''"](.+)['' @ apos @ bslash @ ''"]'',
     Seq [Lit ''Error: Cannot find module '',
          quote,
          Grp 1 any1,
          quote],
     \<lambda>m. case group m 1 of
            None \<Rightarrow> Inl (AttributeError ('''NoneType' object has no attribute 'split'' @ apos))
          | Some name \<Rightarrow>
              Inr (''Node module '' @ apos @ g m 1
                   @ ''' not found. Try: npm install '' @ split_first name))\<close>

definition sig_db_refused :: signature where
  \<open>sig_db_refused =
    (''(?:psycopg2'' @ bslash @ ''.)?OperationalError.*connection.*refused'',
     Seq [Opt (Lit ''psycopg2.''),
          Lit ''OperationalError'',
          any0,
          Lit ''connection'',
          any0,
          Lit ''refused''],
     \<lambda>m. Inr (''Database connection refused. Check if the database server is running and accessible.''))\<close>

definition sig_unique_sqlite :: signature where
  \<open>sig_unique_sqlite =
    (''(?:sqlite3'' @ bslash @ ''.)?IntegrityError.*UNIQUE constraint failed: ('' @ bslash
     @ ''w+)'' @ bslash @ ''.('' @ bslash @ ''w+)'',
     Seq [Opt (Lit ''sqlite3.''),
          Lit ''IntegrityError'',
          any0,
          Lit ''UNIQUE constraint failed: '',
          Grp 1 word1,
          Lit ''.'',
          Grp 2 word1],
     \<lambda>m. Inr (''Duplicate value in '' @ g m 1 @ ''.'' @ g m 2 @ ''. The value must be unique.''))\<close>

definition sig_unique_mysql :: signature where
  \<open>sig_unique_mysql =
    (''(?:mysql'' @ bslash @ ''.connector'' @ bslash @ ''.)?IntegrityError.*Duplicate entry'',
     Seq [Opt (Lit ''mysql.connector.''),
          Lit ''IntegrityError'',
          any0,
          Lit ''Duplicate entry''],
     \<lambda>m. Inr (''Duplicate entry violates unique constraint. Check for existing records.''))\<close>

definition sig_conn_refused :: signature where
  \<open>sig_conn_refused =
    (''ConnectionRefusedError|ECONNREFUSED'',
     Alt (Lit ''ConnectionRefusedError'') (Lit ''ECONNREFUSED''),
     \<lambda>m. Inr (''Connection refused. The target service may be down or the port may be wrong.''))\<close>

definition sig_timeout :: signature where
  \<open>sig_timeout =
    (''TimeoutError|ETIMEDOUT'',
     Alt (Lit ''TimeoutError'') (Lit ''ETIMEDOUT''),
     \<lambda>m. Inr (''Connection timed out. Check network connectivity and service availability.''))\<close>

definition sig_http_error :: signature where
  \<open>sig_http_error =
    (''(?:requests'' @ bslash @ ''.exceptions'' @ bslash @ ''.)?HTTPError.*('' @ bslash
     @ ''d{3})'',
     Seq [Opt (Lit ''requests.exceptions.''),
          Lit ''HTTPError'',
          any0,
          Grp 1 (Times Digit 3)],
     \<lambda>m. case group m 1 of
            None \<Rightarrow>
              Inl (TypeError (''int() argument must be a string, a bytes-like object or a real number, not 'NoneType''
                               @ apos))
          | Some code \<Rightarrow>
              (case py_int code of
                 Inl e \<Rightarrow> Inl e
               | Inr status_code \<Rightarrow> Inr (get_http_error_explanation status_code)))\<close>

definition ERROR_PATTERNS :: "signature list" where
  "ERROR_PATTERNS =
    [sig_module_not_found,
     sig_import_error,
     sig_type_arity,
     sig_attribute_error,
     sig_key_error,
     sig_value_error,
     sig_file_not_found,
     sig_permission_error,
     sig_reference_error,
     sig_null_access,
     sig_syntax_error,
     sig_enoent,
     sig_node_module,
     sig_db_refused,
     sig_unique_sqlite,
     sig_unique_mysql,
     sig_conn_refused,
     sig_timeout,
     sig_http_error]"

subsection \<open>Stack frames\<close>

definition py_pattern :: re where
  \<open>py_pattern =
     Seq [Lit ''File "'', Grp 1 (Rep (NotChr (CHR 0x22)) 1 True), Lit ''", line '',
          Grp 2 digit1, Lit '', in '', Grp 3 word1]\<close>

definition js_pattern :: re where
  \<open>js_pattern =
     Seq [Lit ''at '', Grp 1 word1, Rep AnyChar 0 False, Lit ''('',
          Grp 2 (Rep AnyChar 1 False), Lit '':'', Grp 3 digit1, Lit '':'', digit1, Lit '')'']\<close>

text \<open>
  The two loops of \<open>extract_stack_frames\<close>, each appending one frame per match to the
  list \<open>frames\<close>: first the Python traceback lines, then the JavaScript ones.
\<close>

definition extract_stack_frames :: "string \<Rightarrow> stack_frame list" where
  "extract_stack_frames log =
     (let frames = [];
          frames = foldl (\<lambda>frames m.
                     frames @ [\<lparr>frame_file = group m 1, frame_line = group m 2,
                                frame_function = group m 3\<rparr>])
                   frames (re_finditer py_pattern log);
          frames = foldl (\<lambda>frames m.
                     frames @ [\<lparr>frame_file = group m 2, frame_line = group m 3,
                                frame_function = group m 1\<rparr>])
                   frames (re_finditer js_pattern log)
      in frames)"

subsection \<open>Format detection\<close>

definition js_frame_shape :: re where
  \<open>js_frame_shape =
     Seq [Lit ''at '', word1, Rep AnyChar 0 False, Lit ''('', Rep AnyChar 1 False, Lit '':'',
          digit1, Lit '':'', digit1, Lit '')'']\<close>

definition detect_log_format :: "string \<Rightarrow> string" where
  "detect_log_format log =
     (case json_loads log of
        Some parsed \<Rightarrow> ''json''
      | None \<Rightarrow>
          if py_in ''Traceback (most recent call last):'' log then ''python''
          else if re_search False js_frame_shape log \<noteq> None then ''javascript''
          else ''plain'')"

subsection \<open>Analysis\<close>

text \<open>
  The body of the branch for a decoded dictionary: \<open>message\<close>, \<open>error\<close> and the text of
  \<open>stack\<close>, joined by blanks. The two \<open>+\<close> that take a decoded value raise when the value
  is not a string.
\<close>

definition rebuild_log :: "(string \<times> json) list \<Rightarrow> exn + string" where
  "rebuild_log parsed =
     (case value_plus_str (dict_get parsed ''message'' (JStr [])) '' '' of
        Inl e \<Rightarrow> Inl e
      | Inr t1 \<Rightarrow>
          (case str_plus_value t1 (dict_get parsed ''error'' (JStr [])) of
             Inl e \<Rightarrow> Inl e
           | Inr t2 \<Rightarrow> Inr (t2 @ '' '' @ py_str (dict_get parsed ''stack'' (JStr [])))))"

text \<open>
  The block guarded by \<open>log_format == "json"\<close>: the text as rebuilt from a decoded
  dictionary, and the text as it stands when decoding fails or gives another value.
\<close>

definition unwrap_json :: "string \<Rightarrow> exn + string" where
  "unwrap_json log =
     (case json_loads log of
        None \<Rightarrow> Inr log
      | Some (JObj parsed) \<Rightarrow> rebuild_log parsed
      | Some _ \<Rightarrow> Inr log)"

text \<open>
  The loop over the registry: one search per signature, and one entry appended to
  \<open>found\<close> for each signature that matches.
\<close>

fun find_errors :: "signature list \<Rightarrow> string \<Rightarrow> matched_error list \<Rightarrow> exn + matched_error list"
  where
  "find_errors [] log found = Inr found"
| "find_errors ((pattern, rx, explanation_fn) # rest) log found =
     (case re_search True rx log of
        None \<Rightarrow> find_errors rest log found
      | Some m \<Rightarrow>
          (case explanation_fn m of
             Inl e \<Rightarrow> Inl e
           | Inr explanation \<Rightarrow>
               find_errors rest log
                 (found @ [\<lparr>err_pattern = pattern, err_match = m_text m,
                            err_explanation = explanation\<rparr>])))"

definition no_pattern_suggestion :: string where
  "no_pattern_suggestion = ''No known error patterns matched. Review the full log for context.''"

definition location_suggestion :: "stack_frame \<Rightarrow> string" where
  "location_suggestion first_frame =
     ''Error originated in '' @ fstr (frame_file first_frame) @ '':''
     @ fstr (frame_line first_frame) @ '' in function '' @ fstr (frame_function first_frame)"

definition general_suggestions :: "string list" where
  "general_suggestions =
    [''Add logging around the error location for more context'',
     ''Check if this error is reproducible consistently'',
     ''Review recent code changes that might have caused this'']"

text \<open>
  \<open>analyze_error\<close> assigns the unwrapped text to its parameter \<open>log\<close>, so everything after
  the unwrapping reads the new text. \<open>analysis_text\<close> is the value \<open>log\<close> has from there on;
  \<open>log0\<close> is the text the caller passed.
\<close>

definition analysis_text :: "string \<Rightarrow> string \<Rightarrow> exn + string" where
  "analysis_text log_format log0 = (if log_format = ''json'' then unwrap_json log0 else Inr log0)"

definition analyze_error :: "string \<Rightarrow> string \<Rightarrow> exn + analysis" where
  "analyze_error log0 format_hint =
     (let log_format = (if format_hint = ''auto'' then detect_log_format log0 else format_hint)
      in case analysis_text log_format log0 of
           Inl e \<Rightarrow> Inl e
         | Inr log \<Rightarrow>
             (case find_errors ERROR_PATTERNS log [] of
                Inl e \<Rightarrow> Inl e
              | Inr errors \<Rightarrow>
                  let frames = extract_stack_frames log;
                      sugg = [];
                      sugg = (if errors = [] then sugg @ [no_pattern_suggestion] else sugg);
                      sugg = (case frames of
                                [] \<Rightarrow> sugg
                              | first_frame # _ \<Rightarrow> sugg @ [location_suggestion first_frame]);
                      sugg = sugg @ general_suggestions
                  in Inr \<lparr>format_detected = log_format, errors_found = errors,
                          suggestions = sugg, stack_frames = frames\<rparr>))"

subsection \<open>The report\<close>

definition newline :: string where
  "newline = [CHR 0x0A]"

definition error_lines :: "nat \<times> matched_error \<Rightarrow> string list" where
  "error_lines ie =
     [''### Error '' @ dec (fst ie),
      ''**Match:** `'' @ err_match (snd ie) @ ''`'',
      ''**Explanation:** '' @ err_explanation (snd ie),
      '''']"

definition frame_line_text :: "stack_frame \<Rightarrow> string" where
  "frame_line_text frame =
     ''- `'' @ fstr (frame_file frame) @ '':'' @ fstr (frame_line frame) @ ''` in `''
     @ fstr (frame_function frame) @ ''`''"

definition format_analysis :: "analysis \<Rightarrow> string" where
  "format_analysis a =
     (let lines = [''# Error Analysis Report'', '''',
                   ''**Log Format:** '' @ format_detected a, ''''];
          lines = (if errors_found a \<noteq> []
                   then lines @ [''## Errors Identified'', '''']
                        @ concat (map error_lines (enumerate 1 (errors_found a)))
                   else lines);
          lines = (if stack_frames a \<noteq> []
                   then lines @ [''## Stack Trace'', '''']
                        @ map frame_line_text (take 10 (stack_frames a)) @ ['''']
                   else lines);
          lines = (if suggestions a \<noteq> []
                   then lines @ [''## Suggestions'', '''']
                        @ map (\<lambda>suggestion. ''- '' @ suggestion) (suggestions a)
                   else lines)
      in py_join newline lines)"

subsection \<open>The command\<close>

text \<open>
  \<open>execute\<close> reads its two arguments, both strings, from the argument dictionary. The
  file system is a parameter: \<open>fs path\<close> is \<open>None\<close> when \<open>path\<close> names no regular file,
  \<open>Some (Inr text)\<close> when opening and reading the file gives \<open>text\<close>, and \<open>Some (Inl msg)\<close>
  when that raises an exception whose text is \<open>msg\<close>.
\<close>

type_synonym filesystem = "string \<Rightarrow> (string + string) option"

definition execute :: "filesystem \<Rightarrow> (string \<rightharpoonup> string) \<Rightarrow> command_result" where
  "execute fs args =
     (let log_input = (case args ''log'' of Some v \<Rightarrow> v | None \<Rightarrow> []);
          log_format = (case args ''format'' of Some v \<Rightarrow> v | None \<Rightarrow> ''auto'')
      in if log_input = [] then
           \<lparr>cmd_success = False, cmd_output = [],
            cmd_error = Some ''No log input provided. Use log='...' to provide error text.''\<rparr>
         else
           (case (case fs log_input of None \<Rightarrow> Inr log_input | Some content \<Rightarrow> content) of
              Inl e \<Rightarrow>
                \<lparr>cmd_success = False, cmd_output = [], cmd_error = Some (''Failed to read log file: '' @ e)\<rparr>
            | Inr text \<Rightarrow>
                (case analyze_error text log_format of
                   Inl e \<Rightarrow>
                     \<lparr>cmd_success = False, cmd_output = [],
                      cmd_error = Some (''Analysis failed: '' @ exn_text e)\<rparr>
                 | Inr analysis \<Rightarrow>
                     \<lparr>cmd_success = True, cmd_output = format_analysis analysis, cmd_error = None\<rparr>)))"

section \<open>Properties of the text operations\<close>


subsection \<open>Searching\<close>

text \<open>
  A search that succeeds reports a match that the matcher found at some suffix of the
  text, and the matched text is the piece of the searched text at the reported span.
\<close>

lemma re_scan_caps:
  "re_scan ic r adv pos s = Some m \<Longrightarrow>
     \<exists>t st. st \<in> set (ms ic r (t, [])) \<and> m_caps m = snd st"
proof (induction ic r adv pos s arbitrary: m rule: re_scan.induct)
  case (1 ic r adv pos s)
  show ?case
  proof (cases "filter (\<lambda>st. \<not> adv \<or> length (fst st) < length s) (ms ic r (s, []))")
    case Nil
    with "1.prems" obtain c t where s: "s = c # t"
      and rec: "re_scan ic r False (Suc pos) t = Some m"
      by (auto simp: re_scan.simps [of ic r adv pos s] split: list.splits)
    from "1.IH" [OF Nil s rec] show ?thesis .
  next
    case (Cons st sts)
    then have "st \<in> set (filter (\<lambda>st. \<not> adv \<or> length (fst st) < length s) (ms ic r (s, [])))"
      by simp
    then have mem: "st \<in> set (ms ic r (s, []))" by auto
    from Cons "1.prems" have "m_caps m = snd st"
      by (auto simp: re_scan.simps [of ic r adv pos s])
    with mem show ?thesis by blast
  qed
qed

lemma re_scan_text:
  "re_scan ic r adv pos s = Some m \<Longrightarrow>
     m_text m = take (m_end m - m_start m) (drop (m_start m - pos) s)"
proof (induction ic r adv pos s arbitrary: m rule: re_scan.induct)
  case (1 ic r adv pos s)
  show ?case
  proof (cases "filter (\<lambda>st. \<not> adv \<or> length (fst st) < length s) (ms ic r (s, []))")
    case Nil
    with "1.prems" obtain c t where s: "s = c # t"
      and rec: "re_scan ic r False (Suc pos) t = Some m"
      by (auto simp: re_scan.simps [of ic r adv pos s] split: list.splits)
    from re_scan_span [OF rec] have "Suc pos \<le> m_start m" by simp
    then have "m_start m - pos = Suc (m_start m - Suc pos)" by arith
    then have "drop (m_start m - pos) (c # t) = drop (m_start m - Suc pos) t"
      by simp
    with "1.IH" [OF Nil s rec] s show ?thesis by simp
  next
    case (Cons st sts)
    with "1.prems" show ?thesis
      by (auto simp: re_scan.simps [of ic r adv pos s])
  qed
qed



text \<open>
  The match a search reports is the leftmost one: the matcher finds nothing at any
  earlier position.
\<close>

lemma re_scan_leftmost:
  "re_scan ic r False pos s = Some m \<Longrightarrow>
     \<forall>i < m_start m - pos. ms ic r (drop i s, []) = []"
proof (induction s arbitrary: pos)
  case Nil
  then show ?case by (auto simp: re_scan.simps [of ic r False pos "[]"] split: list.splits)
next
  case (Cons c cs)
  show ?case
  proof (cases "ms ic r (c # cs, [])")
    case Nil
    with Cons.prems have rec: "re_scan ic r False (Suc pos) cs = Some m"
      by (auto simp: re_scan.simps [of ic r False pos "c # cs"])
    show ?thesis
    proof (intro allI impI)
      fix i assume i: "i < m_start m - pos"
      show "ms ic r (drop i (c # cs), []) = []"
      proof (cases i)
        case 0
        with Nil show ?thesis by simp
      next
        case (Suc j)
        with i have "j < m_start m - Suc pos" by simp
        with Cons.IH [OF rec] Suc show ?thesis by simp
      qed
    qed
  next
    case (Cons st sts)
    with Cons.prems have "m_start m = pos"
      by (auto simp: re_scan.simps [of ic r False pos "c # cs"])
    then show ?thesis by simp
  qed
qed

subsection \<open>Groups that always take part\<close>

text \<open>
  \<open>binds i r\<close> holds when every match of \<open>r\<close> passes through group \<open>i\<close>: the group
  lies on each path through the pattern, outside every option.
\<close>

fun binds :: "nat \<Rightarrow> re \<Rightarrow> bool"
  and binds_seq :: "nat \<Rightarrow> re list \<Rightarrow> bool" where
  "binds i (Lit l) = False"
| "binds i (One cs) = False"
| "binds i (Rep cs n greedy) = False"
| "binds i (Times cs n) = False"
| "binds i (Opt r) = False"
| "binds i (Alt r1 r2) = (binds i r1 \<and> binds i r2)"
| "binds i (Seq rs) = binds_seq i rs"
| "binds i (Grp j r) = (i = j \<or> binds i r)"
| "binds_seq i [] = False"
| "binds_seq i (r # rs) = (binds i r \<or> binds_seq i rs)"

lemma ms_caps_grow:
  "(s', c') \<in> set (ms ic r st) \<Longrightarrow>
     \<exists>new. c' = new @ snd st \<and> (binds i r \<longrightarrow> i \<in> fst ` set new)"
  "(s', c') \<in> set (ms_seq ic rs st) \<Longrightarrow>
     \<exists>new. c' = new @ snd st \<and> (binds_seq i rs \<longrightarrow> i \<in> fst ` set new)"
proof (induction ic r st and ic rs st arbitrary: s' c' and s' c' rule: ms_ms_seq.induct)
  case (1 ic l st)
  then show ?case by (cases "strip_lit ic l (fst st)") auto
next
  case (2 ic cs st)
  then show ?case by (cases "fst st") (auto split: if_splits)
next
  case (3 ic cs n greedy st)
  then show ?case by (auto simp: Let_def split: if_splits)
next
  case (4 ic cs n st)
  then show ?case by (auto split: if_splits)
next
  case (5 ic r st)
  from "5.prems" consider "(s', c') \<in> set (ms ic r st)" | "(s', c') = st" by auto
  then show ?case
  proof cases
    case 1
    from "5.IH" [OF 1] show ?thesis by auto
  next
    case 2
    then have "c' = [] @ snd st" by auto
    then show ?thesis by (metis binds.simps(5))
  qed
next
  case (6 ic r1 r2 st)
  from "6.prems" consider "(s', c') \<in> set (ms ic r1 st)" | "(s', c') \<in> set (ms ic r2 st)"
    by auto
  then show ?case
  proof cases
    case 1
    from "6.IH"(1) [OF 1] show ?thesis by auto
  next
    case 2
    from "6.IH"(2) [OF 2] show ?thesis by auto
  qed
next
  case (7 ic rs st)
  then show ?case by auto
next
  case (8 ic j r st)
  from "8.prems" obtain s1 c1 where m1: "(s1, c1) \<in> set (ms ic r st)"
    and c': "c' = (j, take (length (fst st) - length s1) (fst st)) # c1"
    by auto
  from "8.IH" [OF m1] obtain new where new: "c1 = new @ snd st"
    and b: "binds i r \<longrightarrow> i \<in> fst ` set new" by blast
  let ?new = "(j, take (length (fst st) - length s1) (fst st)) # new"
  from c' new have "c' = ?new @ snd st" by simp
  moreover from b have "binds i (Grp j r) \<longrightarrow> i \<in> fst ` set ?new" by auto
  ultimately show ?case by blast
next
  case (9 ic st)
  then show ?case by auto
next
  case (10 ic r rs st)
  from "10.prems" obtain s1 c1 where m1: "(s1, c1) \<in> set (ms ic r st)"
    and m2: "(s', c') \<in> set (ms_seq ic rs (s1, c1))"
    by auto
  from "10.IH"(1) [OF m1] obtain n1 where n1: "c1 = n1 @ snd st"
    and b1: "binds i r \<longrightarrow> i \<in> fst ` set n1" by blast
  from "10.IH"(2) [OF m1 m2] obtain n2 where n2: "c' = n2 @ c1"
    and b2: "binds_seq i rs \<longrightarrow> i \<in> fst ` set n2" by auto
  from n1 n2 have "c' = (n2 @ n1) @ snd st" by simp
  moreover from b1 b2 have "binds_seq i (r # rs) \<longrightarrow> i \<in> fst ` set (n2 @ n1)" by auto
  ultimately show ?case by blast
qed

lemma re_scan_group:
  assumes "re_scan ic r adv pos s = Some m" and "binds i r" and "0 < i"
  shows "\<exists>x. group m i = Some x"
proof -
  from re_scan_caps [OF assms(1)] obtain t st
    where st: "st \<in> set (ms ic r (t, []))" and caps: "m_caps m = snd st" by blast
  from st have "(fst st, snd st) \<in> set (ms ic r (t, []))" by simp
  from ms_caps_grow(1) [OF this, of i] assms(2) obtain new
    where "snd st = new @ []" and "i \<in> fst ` set new" by auto
  with caps have "i \<in> fst ` set (m_caps m)" by simp
  then have "map_of (m_caps m) i \<noteq> None" by (simp add: map_of_eq_None_iff)
  with assms(3) show ?thesis by (auto simp: group_def)
qed

subsection \<open>The matches of \<open>finditer\<close>\<close>

lemma finditer_from_scan:
  "m \<in> set (finditer_from r adv pos s) \<Longrightarrow>
     \<exists>adv' pos' s'. re_scan False r adv' pos' s' = Some m"
proof (induction r adv pos s rule: finditer_from.induct)
  case (1 r adv pos s)
  show ?case
  proof (cases "re_scan False r adv pos s")
    case None
    with "1.prems" show ?thesis by (simp add: finditer_from.simps [of r adv pos s])
  next
    case (Some m0)
    with "1.prems" consider "m = m0"
      | "m \<in> set (finditer_from r (m_end m0 = m_start m0) (m_end m0) (drop (m_end m0 - pos) s))"
      by (auto simp: finditer_from.simps [of r adv pos s])
    then show ?thesis
    proof cases
      case 1
      with Some show ?thesis by blast
    next
      case 2
      from "1.IH" [OF Some 2] show ?thesis .
    qed
  qed
qed

text \<open>
  The matches come in the order of the text and do not overlap: each one ends before
  the next starts. Each lies within the text, and its \<open>m_text\<close> is the piece of the
  text at its span.
\<close>

lemma finditer_from_bounds:
  "m \<in> set (finditer_from r adv pos s) \<Longrightarrow>
     pos \<le> m_start m \<and> m_start m \<le> m_end m \<and> m_end m \<le> pos + length s
     \<and> m_text m = take (m_end m - m_start m) (drop (m_start m - pos) s)"
proof (induction r adv pos s rule: finditer_from.induct)
  case (1 r adv pos s)
  show ?case
  proof (cases "re_scan False r adv pos s")
    case None
    with "1.prems" show ?thesis by (simp add: finditer_from.simps [of r adv pos s])
  next
    case (Some m0)
    note span = re_scan_span [OF Some]
    from "1.prems" Some consider "m = m0"
      | "m \<in> set (finditer_from r (m_end m0 = m_start m0) (m_end m0) (drop (m_end m0 - pos) s))"
      by (auto simp: finditer_from.simps [of r adv pos s])
    then show ?thesis
    proof cases
      case 1
      with span re_scan_text [OF Some] show ?thesis by simp
    next
      case 2
      from "1.IH" [OF Some 2]
      have ih: "m_end m0 \<le> m_start m" "m_start m \<le> m_end m"
        "m_end m \<le> m_end m0 + length (drop (m_end m0 - pos) s)"
        "m_text m = take (m_end m - m_start m)
                      (drop (m_start m - m_end m0) (drop (m_end m0 - pos) s))"
        by auto
      from span ih(1) have "(m_start m - m_end m0) + (m_end m0 - pos) = m_start m - pos"
        by simp
      with ih(4) have "m_text m = take (m_end m - m_start m) (drop (m_start m - pos) s)"
        by (simp add: add.commute)
      moreover from span ih(1) have "pos \<le> m_start m" by simp
      moreover from ih(3) span have "m_end m \<le> pos + length s" by simp
      ultimately show ?thesis using ih(2) by simp
    qed
  qed
qed

lemma finditer_from_ordered:
  "sorted_wrt (\<lambda>a b. m_end a \<le> m_start b) (finditer_from r adv pos s)"
proof (induction r adv pos s rule: finditer_from.induct)
  case (1 r adv pos s)
  show ?case
  proof (cases "re_scan False r adv pos s")
    case None
    then show ?thesis by (simp add: finditer_from.simps [of r adv pos s])
  next
    case (Some m0)
    let ?rest = "finditer_from r (m_end m0 = m_start m0) (m_end m0) (drop (m_end m0 - pos) s)"
    have "\<forall>m \<in> set ?rest. m_end m0 \<le> m_start m"
    proof
      fix m assume "m \<in> set ?rest"
      from finditer_from_bounds [OF this] show "m_end m0 \<le> m_start m" by simp
    qed
    with "1.IH" [OF Some] Some show ?thesis
      by (simp add: finditer_from.simps [of r adv pos s])
  qed
qed

lemma re_finditer_ordered:
  "sorted_wrt (\<lambda>a b. m_end a \<le> m_start b) (re_finditer r s)"
  unfolding re_finditer_def by (rule finditer_from_ordered)

lemma re_finditer_text:
  assumes "m \<in> set (re_finditer r s)"
  shows "m_start m \<le> m_end m \<and> m_end m \<le> length s
         \<and> m_text m = take (m_end m - m_start m) (drop (m_start m) s)"
  using finditer_from_bounds [of m r False 0 s] assms unfolding re_finditer_def by simp

lemma re_finditer_group:
  assumes "m \<in> set (re_finditer r s)" and "binds i r" and "0 < i"
  shows "\<exists>x. group m i = Some x"
proof -
  from assms(1) obtain adv' pos' s' where "re_scan False r adv' pos' s' = Some m"
    unfolding re_finditer_def using finditer_from_scan by blast
  from re_scan_group [OF this assms(2,3)] show ?thesis .
qed

section \<open>Signature matching\<close>

text \<open>
  \<open>matching sigs log\<close> lists, in registry order, the signatures whose pattern a
  case-insensitive search finds in \<open>log\<close>, each with the match the search reports.
  \<open>entry_of e (sg, m)\<close> says that the entry \<open>e\<close> is the one built from signature \<open>sg\<close> and
  match \<open>m\<close>: the pattern text, the matched text, and the explanation computed from \<open>m\<close>.
\<close>

definition matching :: "signature list \<Rightarrow> string \<Rightarrow> (signature \<times> rmatch) list" where
  "matching sigs log =
     concat (map (\<lambda>sg. case re_search True (fst (snd sg)) log of
                          None \<Rightarrow> []
                        | Some m \<Rightarrow> [(sg, m)]) sigs)"

definition entry_of :: "matched_error \<Rightarrow> signature \<times> rmatch \<Rightarrow> bool" where
  "entry_of e sm =
     (err_pattern e = fst (fst sm) \<and> err_match e = m_text (snd sm)
      \<and> snd (snd (fst sm)) (snd sm) = Inr (err_explanation e))"

lemma matching_Nil [simp]: "matching [] log = []"
  by (simp add: matching_def)

lemma matching_Cons:
  "matching ((p, rx, f) # rest) log =
     (case re_search True rx log of None \<Rightarrow> [] | Some m \<Rightarrow> [((p, rx, f), m)]) @ matching rest log"
  by (simp add: matching_def)

lemma length_matching:
  "length (matching sigs log) =
     length (filter (\<lambda>sg. re_search True (fst (snd sg)) log \<noteq> None) sigs)"
  by (induction sigs) (auto simp: matching_def split: option.splits)

lemma find_errors_entries:
  "find_errors sigs log found = Inr errs \<Longrightarrow>
     \<exists>new. errs = found @ new \<and> list_all2 entry_of new (matching sigs log)"
proof (induction sigs log found arbitrary: errs rule: find_errors.induct)
  case (1 log found)
  then show ?case by simp
next
  case (2 pattern rx explanation_fn rest log found)
  show ?case
  proof (cases "re_search True rx log")
    case None
    with "2.prems" have "find_errors rest log found = Inr errs" by simp
    from "2.IH"(1) [OF None this] None show ?thesis by (simp add: matching_Cons)
  next
    case (Some m)
    show ?thesis
    proof (cases "explanation_fn m")
      case (Inl e)
      with Some "2.prems" show ?thesis by simp
    next
      case (Inr x)
      let ?entry = "\<lparr>err_pattern = pattern, err_match = m_text m, err_explanation = x\<rparr>"
      from Some Inr "2.prems" have "find_errors rest log (found @ [?entry]) = Inr errs"
        by simp
      from "2.IH"(2) [OF Some Inr this] obtain new
        where errs: "errs = (found @ [?entry]) @ new"
          and rel: "list_all2 entry_of new (matching rest log)" by blast
      have "entry_of ?entry ((pattern, rx, explanation_fn), m)"
        by (simp add: entry_of_def Inr)
      with rel have "list_all2 entry_of (?entry # new) (matching ((pattern, rx, explanation_fn) # rest) log)"
        by (simp add: matching_Cons Some)
      moreover from errs have "errs = found @ (?entry # new)" by simp
      ultimately show ?thesis by blast
    qed
  qed
qed

lemma find_errors_total:
  "(\<forall>sg \<in> set sigs. \<forall>m. re_search True (fst (snd sg)) log = Some m
        \<longrightarrow> (\<exists>x. snd (snd sg) m = Inr x))
   \<Longrightarrow> \<exists>errs. find_errors sigs log found = Inr errs"
proof (induction sigs log found rule: find_errors.induct)
  case (1 log found)
  then show ?case by simp
next
  case (2 pattern rx explanation_fn rest log found)
  from "2.prems" have rest: "\<forall>sg \<in> set rest. \<forall>m. re_search True (fst (snd sg)) log = Some m
        \<longrightarrow> (\<exists>x. snd (snd sg) m = Inr x)" by simp
  show ?case
  proof (cases "re_search True rx log")
    case None
    from "2.IH"(1) [OF None rest] None show ?thesis by simp
  next
    case (Some m)
    with "2.prems" obtain x where x: "explanation_fn m = Inr x" by fastforce
    from "2.IH"(2) [OF Some x rest] Some x show ?thesis by simp
  qed
qed

subsection \<open>The two explanations that can fail\<close>

lemma ms_seq_snoc:
  "st' \<in> set (ms_seq ic (rs @ [r]) st) \<longleftrightarrow> (\<exists>st1 \<in> set (ms_seq ic rs st). st' \<in> set (ms ic r st1))"
  by (induction rs arbitrary: st) auto

lemma cmatch_Digit: "cmatch ic Digit = is_digit"
  by (rule ext) simp

lemma grp_times_digit:
  assumes "st' \<in> set (ms ic (Grp i (Times Digit n)) st1)"
  shows "\<exists>d. snd st' = (i, d) # snd st1 \<and> length d = n \<and> list_all is_digit d"
proof -
  let ?s = "fst st1"
  let ?run = "takeWhile is_digit ?s"
  from assms have n: "n \<le> length ?run"
    and st': "st' = (drop n ?s, (i, take (length ?s - length (drop n ?s)) ?s) # snd st1)"
    by (auto simp: cmatch_Digit split: if_splits)
  have "length ?run \<le> length ?s" by (rule length_takeWhile_le)
  with n have le: "n \<le> length ?s" by simp
  then have d: "take (length ?s - length (drop n ?s)) ?s = take n ?s" by simp
  have "take n ?s = take n (?run @ dropWhile is_digit ?s)"
    by (simp only: takeWhile_dropWhile_id)
  also from n have "\<dots> = take n ?run"
    by (simp del: takeWhile_dropWhile_id)
  finally have "set (take n ?s) \<subseteq> set ?run" by (simp add: set_take_subset)
  then have "\<forall>c \<in> set (take n ?s). is_digit c" by (auto dest: set_takeWhileD)
  then have "list_all is_digit (take n ?s)" by (simp add: list_all_iff)
  with st' d le show ?thesis by simp
qed

lemma http_code_group:
  assumes "re_search True (fst (snd sig_http_error)) log = Some m"
  shows "\<exists>code. group m 1 = Some code \<and> length code = 3 \<and> list_all is_digit code"
proof -
  let ?pre = "[Opt (Lit ''requests.exceptions.''), Lit ''HTTPError'', any0]"
  have rx: "fst (snd sig_http_error) = Seq (?pre @ [Grp 1 (Times Digit 3)])"
    by (simp add: sig_http_error_def)
  from assms obtain t st where st: "st \<in> set (ms True (fst (snd sig_http_error)) (t, []))"
    and caps: "m_caps m = snd st"
    unfolding re_search_def using re_scan_caps by blast
  from st rx have "st \<in> set (ms_seq True (?pre @ [Grp 1 (Times Digit 3)]) (t, []))"
    by simp
  then obtain st1 where "st \<in> set (ms True (Grp 1 (Times Digit 3)) st1)"
    unfolding ms_seq_snoc by blast
  from grp_times_digit [OF this] obtain d where "snd st = (1, d) # snd st1"
    and "length d = 3" and "list_all is_digit d" by blast
  with caps show ?thesis by (simp add: group_def)
qed

lemma http_explanation:
  assumes "re_search True (fst (snd sig_http_error)) log = Some m"
  shows "\<exists>code. group m 1 = Some code \<and> length code = 3 \<and> list_all is_digit code
           \<and> snd (snd sig_http_error) m = Inr (get_http_error_explanation (digits_val code))"
proof -
  from http_code_group [OF assms] obtain code where c: "group m 1 = Some code"
    "length code = 3" "list_all is_digit code" by blast
  then have "code \<noteq> []" by auto
  with c have "py_int code = Inr (digits_val code)" by (simp add: py_int_def)
  with c have "snd (snd sig_http_error) m = Inr (get_http_error_explanation (digits_val code))"
    by (simp add: sig_http_error_def)
  with c show ?thesis by blast
qed

lemma node_module_explanation:
  assumes "re_search True (fst (snd sig_node_module)) log = Some m"
  shows "\<exists>x. snd (snd sig_node_module) m = Inr x"
proof -
  have "binds 1 (fst (snd sig_node_module))"
    by (simp add: sig_node_module_def any1_def quote_def)
  from re_scan_group [OF assms [unfolded re_search_def] this] obtain name
    where "group m 1 = Some name" by auto
  then show ?thesis by (simp add: sig_node_module_def)
qed

lemma registry_explains:
  assumes "sg \<in> set ERROR_PATTERNS" and "re_search True (fst (snd sg)) log = Some m"
  shows "\<exists>x. snd (snd sg) m = Inr x"
proof -
  from assms(1) consider "sg = sig_node_module" | "sg = sig_http_error"
    | "sg \<in> {sig_module_not_found, sig_import_error, sig_type_arity, sig_attribute_error,
              sig_key_error, sig_value_error, sig_file_not_found, sig_permission_error,
              sig_reference_error, sig_null_access, sig_syntax_error, sig_enoent,
              sig_db_refused, sig_unique_sqlite, sig_unique_mysql, sig_conn_refused,
              sig_timeout}"
    unfolding ERROR_PATTERNS_def by auto
  then show ?thesis
  proof cases
    case 1
    with assms(2) node_module_explanation show ?thesis by blast
  next
    case 2
    with assms(2) http_explanation show ?thesis by blast
  next
    case 3
    then show ?thesis
      by (auto simp: sig_module_not_found_def sig_import_error_def sig_type_arity_def
          sig_attribute_error_def sig_key_error_def sig_value_error_def
          sig_file_not_found_def sig_permission_error_def sig_reference_error_def
          sig_null_access_def sig_syntax_error_def sig_enoent_def sig_db_refused_def
          sig_unique_sqlite_def sig_unique_mysql_def sig_conn_refused_def sig_timeout_def)
  qed
qed

lemma find_errors_registry:
  "\<exists>errs. find_errors ERROR_PATTERNS log found = Inr errs"
  by (rule find_errors_total) (blast dest: registry_explains)

lemma length_ERROR_PATTERNS: "length ERROR_PATTERNS = 19"
  by (simp add: ERROR_PATTERNS_def)

text \<open>
  The matching loop on its own: it returns for every text, and its result has one entry
  for each signature of the registry whose pattern a case-insensitive search finds in the
  text, in registry order. The match of a signature is the leftmost one.
\<close>

lemma find_errors_matching:
  "\<exists>errs. find_errors ERROR_PATTERNS log [] = Inr errs
     \<and> list_all2 entry_of errs (matching ERROR_PATTERNS log)
     \<and> length errs =
         length (filter (\<lambda>sg. re_search True (fst (snd sg)) log \<noteq> None) ERROR_PATTERNS)
     \<and> (\<forall>sg m. (sg, m) \<in> set (matching ERROR_PATTERNS log) \<longrightarrow>
           sg \<in> set ERROR_PATTERNS \<and> re_search True (fst (snd sg)) log = Some m
           \<and> m_text m = take (m_end m - m_start m) (drop (m_start m) log)
           \<and> (\<forall>i < m_start m. ms True (fst (snd sg)) (drop i log, []) = []))"
proof -
  from find_errors_registry obtain errs
    where errs: "find_errors ERROR_PATTERNS log [] = Inr errs" by blast
  from find_errors_entries [OF errs]
  have rel: "list_all2 entry_of errs (matching ERROR_PATTERNS log)" by simp
  then have "length errs = length (matching ERROR_PATTERNS log)"
    by (rule list_all2_lengthD)
  then have len: "length errs =
      length (filter (\<lambda>sg. re_search True (fst (snd sg)) log \<noteq> None) ERROR_PATTERNS)"
    by (simp add: length_matching)
  have "\<forall>sg m. (sg, m) \<in> set (matching ERROR_PATTERNS log) \<longrightarrow>
           sg \<in> set ERROR_PATTERNS \<and> re_search True (fst (snd sg)) log = Some m
           \<and> m_text m = take (m_end m - m_start m) (drop (m_start m) log)
           \<and> (\<forall>i < m_start m. ms True (fst (snd sg)) (drop i log, []) = [])"
  proof (intro allI impI)
    fix sg m
    assume "(sg, m) \<in> set (matching ERROR_PATTERNS log)"
    then have sg: "sg \<in> set ERROR_PATTERNS"
      and m: "re_search True (fst (snd sg)) log = Some m"
      by (auto simp: matching_def split: option.splits)
    from m have scan: "re_scan True (fst (snd sg)) False 0 log = Some m"
      by (simp add: re_search_def)
    from re_scan_text [OF scan]
    have "m_text m = take (m_end m - m_start m) (drop (m_start m) log)" by simp
    moreover from re_scan_leftmost [OF scan]
    have "\<forall>i < m_start m. ms True (fst (snd sg)) (drop i log, []) = []" by simp
    ultimately show "sg \<in> set ERROR_PATTERNS \<and> re_search True (fst (snd sg)) log = Some m
           \<and> m_text m = take (m_end m - m_start m) (drop (m_start m) log)
           \<and> (\<forall>i < m_start m. ms True (fst (snd sg)) (drop i log, []) = [])"
      using sg m by simp
  qed
  with errs rel len show ?thesis by blast
qed

text \<open>
  A text in which two signatures match overlapping pieces: the value-error signature
  takes the whole line, the timeout signature a word inside it, and both report, in
  registry order. The text is in lower case: the search ignores case.
\<close>

definition two_signature_log :: string where
  "two_signature_log = ''valueerror: etimedout''"

lemma two_signature_errors:
  "find_errors ERROR_PATTERNS two_signature_log [] =
     Inr [\<lparr>err_pattern = ''ValueError: (.+)'',
           err_match = ''valueerror: etimedout'',
           err_explanation =
             ''Invalid value: etimedout. Validate input data before processing.''\<rparr>,
          \<lparr>err_pattern = ''TimeoutError|ETIMEDOUT'',
           err_match = ''etimedout'',
           err_explanation =
             ''Connection timed out. Check network connectivity and service availability.''\<rparr>]"
  by code_simp

text \<open>
  C7. Whenever the HTTP signature matches, its group is three digits and the explanation
  is the status lookup at their value, so it never fails. For the digits 404 the
  explanation is the fixed 404 sentence; for a code outside the table, such as 599, it is
  the generic sentence built from the code.
\<close>

lemma dec_599: "dec 599 = ''599''"
  by code_simp

lemma http_404:
  "get_http_error_explanation 404 = ''Not Found - The resource doesn't exist. Verify the URL.''"
  by (simp add: get_http_error_explanation_def explanations_def)

lemma map_of_explanations_None:
  "code \<notin> {400, 401, 403, 404, 405, 408, 429, 500, 502, 503, 504}
   \<Longrightarrow> map_of explanations code = None"
  by (simp add: explanations_def)

lemma http_unmapped:
  "code \<notin> {400, 401, 403, 404, 405, 408, 429, 500, 502, 503, 504} \<Longrightarrow>
   get_http_error_explanation code =
     ''HTTP error '' @ py_str_int code @ ''. Check the API documentation.''"
  unfolding get_http_error_explanation_def
  using map_of_explanations_None [of code] by (simp del: map_of.simps)

lemma http_599:
  "get_http_error_explanation 599 = ''HTTP error 599. Check the API documentation.''"
  by (subst http_unmapped) (simp_all add: py_str_int_def dec_599)

lemma digits_val_404: "digits_val ''404'' = 404"
  by (simp add: digits_val_def ord_def)

lemma digits_val_599: "digits_val ''599'' = 599"
  by (simp add: digits_val_def ord_def)

theorem http_status_explanation:
  assumes "re_search True (fst (snd sig_http_error)) log = Some m"
  shows "\<exists>code. group m 1 = Some code \<and> length code = 3 \<and> list_all is_digit code
     \<and> snd (snd sig_http_error) m = Inr (get_http_error_explanation (digits_val code))
     \<and> (code = ''404'' \<longrightarrow>
          snd (snd sig_http_error) m =
            Inr ''Not Found - The resource doesn't exist. Verify the URL.'')
     \<and> (code = ''599'' \<longrightarrow>
          snd (snd sig_http_error) m = Inr ''HTTP error 599. Check the API documentation.'')
     \<and> (digits_val code \<notin> {400, 401, 403, 404, 405, 408, 429, 500, 502, 503, 504} \<longrightarrow>
          snd (snd sig_http_error) m =
            Inr (''HTTP error '' @ py_str_int (digits_val code)
                 @ ''. Check the API documentation.''))"
proof -
  from http_explanation [OF assms] obtain code where c: "group m 1 = Some code"
    "length code = 3" "list_all is_digit code"
    and ex: "snd (snd sig_http_error) m = Inr (get_http_error_explanation (digits_val code))"
    by blast
  have "code = ''404'' \<longrightarrow>
          snd (snd sig_http_error) m =
            Inr ''Not Found - The resource doesn't exist. Verify the URL.''"
    using ex http_404 digits_val_404 by simp
  moreover have "code = ''599'' \<longrightarrow>
          snd (snd sig_http_error) m = Inr ''HTTP error 599. Check the API documentation.''"
    using ex http_599 digits_val_599 by simp
  moreover have "digits_val code \<notin> {400, 401, 403, 404, 405, 408, 429, 500, 502, 503, 504} \<longrightarrow>
          snd (snd sig_http_error) m =
            Inr (''HTTP error '' @ py_str_int (digits_val code)
                 @ ''. Check the API documentation.'')"
    using ex http_unmapped [of "digits_val code"] by simp
  ultimately show ?thesis using c ex by blast
qed

lemma http_search_599:
  "re_search True (fst (snd sig_http_error)) ''HTTPError: 599 Server Error'' =
     Some \<lparr>m_start = 0, m_end = 14, m_text = ''HTTPError: 599'', m_caps = [(1, ''599'')]\<rparr>"
  by code_simp

theorem http_status_explanation_witness:
  "re_search True (fst (snd sig_http_error)) ''HTTPError: 599 Server Error'' =
     Some \<lparr>m_start = 0, m_end = 14, m_text = ''HTTPError: 599'', m_caps = [(1, ''599'')]\<rparr>
   \<and> snd (snd sig_http_error)
         \<lparr>m_start = 0, m_end = 14, m_text = ''HTTPError: 599'', m_caps = [(1, ''599'')]\<rparr> =
       Inr ''HTTP error 599. Check the API documentation.''"
  using http_status_explanation [OF http_search_599] http_search_599
  by (auto simp: group_def)

section \<open>Stack frames and format detection\<close>

lemma foldl_append_map: "foldl (\<lambda>acc m. acc @ [f m]) acc xs = acc @ map f xs"
  by (induction xs arbitrary: acc) auto

text \<open>The frame each loop of \<open>extract_stack_frames\<close> builds from a match.\<close>

definition py_frame :: "rmatch \<Rightarrow> stack_frame" where
  "py_frame m = \<lparr>frame_file = group m 1, frame_line = group m 2, frame_function = group m 3\<rparr>"

definition js_frame :: "rmatch \<Rightarrow> stack_frame" where
  "js_frame m = \<lparr>frame_file = group m 2, frame_line = group m 3, frame_function = group m 1\<rparr>"

lemma extract_stack_frames_eq:
  "extract_stack_frames log =
     map py_frame (re_finditer py_pattern log) @ map js_frame (re_finditer js_pattern log)"
proof -
  have py: "(\<lambda>frames m. frames @ [\<lparr>frame_file = group m 1, frame_line = group m 2,
              frame_function = group m 3\<rparr>]) = (\<lambda>frames m. frames @ [py_frame m])"
    by (simp add: py_frame_def)
  have js: "(\<lambda>frames m. frames @ [\<lparr>frame_file = group m 2, frame_line = group m 3,
              frame_function = group m 1\<rparr>]) = (\<lambda>frames m. frames @ [js_frame m])"
    by (simp add: js_frame_def)
  show ?thesis
    unfolding extract_stack_frames_def Let_def py js by (simp add: foldl_append_map)
qed

text \<open>
  The three groups of both frame patterns take part in every match, so the three fields
  of every extracted frame are strings.
\<close>

lemma py_pattern_binds: "binds 1 py_pattern \<and> binds 2 py_pattern \<and> binds 3 py_pattern"
  by (simp add: py_pattern_def digit1_def word1_def)

lemma js_pattern_binds: "binds 1 js_pattern \<and> binds 2 js_pattern \<and> binds 3 js_pattern"
  by (simp add: js_pattern_def digit1_def word1_def)

lemma frame_fields_defined:
  assumes "fr \<in> set (extract_stack_frames log)"
  shows "\<exists>f l fn. fr = \<lparr>frame_file = Some f, frame_line = Some l, frame_function = Some fn\<rparr>"
proof -
  from assms consider m where "m \<in> set (re_finditer py_pattern log)" "fr = py_frame m"
    | m where "m \<in> set (re_finditer js_pattern log)" "fr = js_frame m"
    unfolding extract_stack_frames_eq by auto
  then show ?thesis
  proof cases
    case 1
    from re_finditer_group [OF 1(1)] py_pattern_binds
    obtain a b c where "group m 1 = Some a" "group m 2 = Some b" "group m 3 = Some c"
      by (metis zero_less_numeral zero_less_one)
    with 1(2) show ?thesis by (simp add: py_frame_def)
  next
    case 2
    from re_finditer_group [OF 2(1)] js_pattern_binds
    obtain a b c where "group m 1 = Some a" "group m 2 = Some b" "group m 3 = Some c"
      by (metis zero_less_numeral zero_less_one)
    with 2(2) show ?thesis by (simp add: js_frame_def)
  qed
qed

text \<open>
  C8. The frames are those of the Python-style matches followed by those of the
  JavaScript-style matches, whatever their places in the text. Within each dialect the
  matches are in the order of the text and do not overlap, every match gives a frame
  (nothing is dropped as a duplicate), and a text without a match of either pattern
  gives the empty list.
\<close>

theorem extract_frames_dialect_major:
  "extract_stack_frames log =
     map py_frame (re_finditer py_pattern log) @ map js_frame (re_finditer js_pattern log)
   \<and> sorted_wrt (\<lambda>a b. m_end a \<le> m_start b) (re_finditer py_pattern log)
   \<and> sorted_wrt (\<lambda>a b. m_end a \<le> m_start b) (re_finditer js_pattern log)
   \<and> (\<forall>m \<in> set (re_finditer py_pattern log) \<union> set (re_finditer js_pattern log).
         m_end m \<le> length log
         \<and> m_text m = take (m_end m - m_start m) (drop (m_start m) log))
   \<and> length (extract_stack_frames log) =
         length (re_finditer py_pattern log) + length (re_finditer js_pattern log)
   \<and> (re_finditer py_pattern log = [] \<and> re_finditer js_pattern log = []
        \<longrightarrow> extract_stack_frames log = [])"
proof -
  have "\<forall>m \<in> set (re_finditer py_pattern log) \<union> set (re_finditer js_pattern log).
         m_end m \<le> length log
         \<and> m_text m = take (m_end m - m_start m) (drop (m_start m) log)"
    using re_finditer_text by blast
  then show ?thesis
    by (simp add: extract_stack_frames_eq re_finditer_ordered)
qed

text \<open>
  A text whose JavaScript frame comes first and whose Python frame comes twice: the two
  Python frames lead, both kept, and the JavaScript frame follows.
\<close>

definition mixed_trace :: string where
  \<open>mixed_trace = ''at g (b.js:2:3) File "a.py", line 1, in f File "a.py", line 1, in f''\<close>

lemma mixed_trace_py:
  \<open>map (\<lambda>m. (m_start m, m_end m, py_frame m)) (re_finditer py_pattern mixed_trace) =
     [(16, 41, \<lparr>frame_file = Some ''a.py'', frame_line = Some ''1'', frame_function = Some ''f''\<rparr>),
      (42, 67, \<lparr>frame_file = Some ''a.py'', frame_line = Some ''1'', frame_function = Some ''f''\<rparr>)]\<close>
  by code_simp

lemma mixed_trace_js:
  \<open>map (\<lambda>m. (m_start m, m_end m, js_frame m)) (re_finditer js_pattern mixed_trace) =
     [(0, 15, \<lparr>frame_file = Some ''b.js'', frame_line = Some ''2'', frame_function = Some ''g''\<rparr>)]\<close>
  by code_simp

theorem extract_frames_dialect_major_witness:
  \<open>extract_stack_frames mixed_trace =
     [\<lparr>frame_file = Some ''a.py'', frame_line = Some ''1'', frame_function = Some ''f''\<rparr>,
      \<lparr>frame_file = Some ''a.py'', frame_line = Some ''1'', frame_function = Some ''f''\<rparr>,
      \<lparr>frame_file = Some ''b.js'', frame_line = Some ''2'', frame_function = Some ''g''\<rparr>]
   \<and> map m_start (re_finditer py_pattern mixed_trace) = [16, 42]
   \<and> map m_start (re_finditer js_pattern mixed_trace) = [0]
   \<and> extract_stack_frames ''no frames here'' = []\<close>
proof -
  have py: "map py_frame (re_finditer py_pattern mixed_trace) =
      map (\<lambda>t. snd (snd t))
        (map (\<lambda>m. (m_start m, m_end m, py_frame m)) (re_finditer py_pattern mixed_trace))"
    by simp
  have js: "map js_frame (re_finditer js_pattern mixed_trace) =
      map (\<lambda>t. snd (snd t))
        (map (\<lambda>m. (m_start m, m_end m, js_frame m)) (re_finditer js_pattern mixed_trace))"
    by simp
  have pys: "map m_start (re_finditer py_pattern mixed_trace) =
      map fst (map (\<lambda>m. (m_start m, m_end m, py_frame m)) (re_finditer py_pattern mixed_trace))"
    by simp
  have jss: "map m_start (re_finditer js_pattern mixed_trace) =
      map fst (map (\<lambda>m. (m_start m, m_end m, js_frame m)) (re_finditer js_pattern mixed_trace))"
    by simp
  have none: "re_finditer py_pattern ''no frames here'' = []
      \<and> re_finditer js_pattern ''no frames here'' = []"
    by code_simp
  from extract_frames_dialect_major [of mixed_trace]
  have "extract_stack_frames mixed_trace =
     map py_frame (re_finditer py_pattern mixed_trace)
     @ map js_frame (re_finditer js_pattern mixed_trace)" by blast
  moreover from extract_frames_dialect_major [of "''no frames here''"] none
  have "extract_stack_frames ''no frames here'' = []" by blast
  ultimately show ?thesis
    unfolding py js pys jss mixed_trace_py mixed_trace_js by simp
qed

section \<open>Format detection\<close>




section \<open>The analysis result\<close>

text \<open>
  \<open>analyze_error\<close> in one equation: the result is built from the format, the text after
  unwrapping, the entries the registry finds in that text and the frames extracted from
  that text; an exception of the unwrapping or of the matching loop is the result.
\<close>

lemma analyze_error_eq:
  "analyze_error log hint =
     (case analysis_text (if hint = ''auto'' then detect_log_format log else hint) log of
        Inl e \<Rightarrow> Inl e
      | Inr text \<Rightarrow>
          (case find_errors ERROR_PATTERNS text [] of
             Inl e \<Rightarrow> Inl e
           | Inr errs \<Rightarrow>
               Inr \<lparr>format_detected = (if hint = ''auto'' then detect_log_format log else hint),
                    errors_found = errs,
                    suggestions =
                      (if errs = [] then [no_pattern_suggestion] else [])
                      @ (case extract_stack_frames text of
                           [] \<Rightarrow> []
                         | fr # _ \<Rightarrow> [location_suggestion fr])
                      @ general_suggestions,
                    stack_frames = extract_stack_frames text\<rparr>))"
  by (simp add: analyze_error_def Let_def split: sum.splits list.splits)


text \<open>
  The text after unwrapping is the text passed in, unless the format is \<open>json\<close> and the
  text decodes to a dictionary.
\<close>

lemma unwrap_json_None: "json_loads log = None \<Longrightarrow> unwrap_json log = Inr log"
  by (simp add: unwrap_json_def)

lemma unwrap_json_dict: "json_loads log = Some (JObj d) \<Longrightarrow> unwrap_json log = rebuild_log d"
  by (simp add: unwrap_json_def)

lemma unwrap_json_other:
  assumes "json_loads log = Some v" and "\<And>d. v \<noteq> JObj d"
  shows "unwrap_json log = Inr log"
proof (cases v)
  case (JObj d)
  with assms(2) [of d] show ?thesis by simp
qed (simp_all add: unwrap_json_def assms(1))

lemma analysis_text_other: "fmt \<noteq> ''json'' \<Longrightarrow> analysis_text fmt log = Inr log"
  by (simp add: analysis_text_def)

lemma analysis_text_json: "analysis_text ''json'' log = unwrap_json log"
  by (simp add: analysis_text_def)

subsection \<open>The suggestions\<close>






section \<open>The errors of an analysis\<close>

text \<open>
  The matching loop never raises, so \<open>analyze_error\<close> returns an analysis whenever the
  unwrapping step returns a text.
\<close>

lemma analyze_error_returns:
  assumes "analysis_text (if hint = ''auto'' then detect_log_format log else hint) log = Inr txt"
  shows "\<exists>a. analyze_error log hint = Inr a
           \<and> format_detected a = (if hint = ''auto'' then detect_log_format log else hint)
           \<and> find_errors ERROR_PATTERNS txt [] = Inr (errors_found a)
           \<and> stack_frames a = extract_stack_frames txt"
proof -
  from find_errors_registry obtain errs
    where errs: "find_errors ERROR_PATTERNS txt [] = Inr errs" by blast
  show ?thesis
    unfolding analyze_error_eq by (simp add: assms errs)
qed

text \<open>
  C5, as the code has it. The text the signatures are searched in is the text
  \<open>analyze_error\<close> holds after the unwrapping step: the input itself, unless the format is
  \<open>json\<close> and the input decodes to a dictionary, in which case it is the text rebuilt from
  the dictionary. Whenever that step returns a text, \<open>analyze_error\<close> returns an analysis
  whose \<open>errors_found\<close> is the result of the loop over the registry on that text: one
  entry for each signature that a case-insensitive search finds there, in registry
  order, none left out, each with the pattern text, the matched text and the explanation
  computed from the match, which is the leftmost one.
\<close>

theorem analysis_errors_found:
  assumes "analysis_text (if hint = ''auto'' then detect_log_format log else hint) log = Inr txt"
  shows "\<exists>a. analyze_error log hint = Inr a
     \<and> find_errors ERROR_PATTERNS txt [] = Inr (errors_found a)
     \<and> list_all2 entry_of (errors_found a) (matching ERROR_PATTERNS txt)
     \<and> length (errors_found a) =
         length (filter (\<lambda>sg. re_search True (fst (snd sg)) txt \<noteq> None) ERROR_PATTERNS)
     \<and> (\<forall>sg m. (sg, m) \<in> set (matching ERROR_PATTERNS txt) \<longrightarrow>
           sg \<in> set ERROR_PATTERNS \<and> re_search True (fst (snd sg)) txt = Some m
           \<and> m_text m = take (m_end m - m_start m) (drop (m_start m) txt)
           \<and> (\<forall>i < m_start m. ms True (fst (snd sg)) (drop i txt, []) = []))
     \<and> (format_detected a \<noteq> ''json'' \<longrightarrow> txt = log)
     \<and> (json_loads log = None \<longrightarrow> txt = log)
     \<and> (\<forall>v. json_loads log = Some v \<and> (\<forall>d. v \<noteq> JObj d) \<longrightarrow> txt = log)
     \<and> (\<forall>d. format_detected a = ''json'' \<and> json_loads log = Some (JObj d) \<longrightarrow>
           rebuild_log d = Inr txt)"
proof -
  let ?fmt = "if hint = ''auto'' then detect_log_format log else hint"
  from analyze_error_returns [OF assms] obtain a
    where a: "analyze_error log hint = Inr a"
      and fmt: "format_detected a = ?fmt"
      and errs: "find_errors ERROR_PATTERNS txt [] = Inr (errors_found a)" by blast
  from find_errors_matching [of "txt"] errs
  have rel: "list_all2 entry_of (errors_found a) (matching ERROR_PATTERNS txt)"
    and len: "length (errors_found a) =
         length (filter (\<lambda>sg. re_search True (fst (snd sg)) txt \<noteq> None) ERROR_PATTERNS)"
    and left: "\<forall>sg m. (sg, m) \<in> set (matching ERROR_PATTERNS txt) \<longrightarrow>
           sg \<in> set ERROR_PATTERNS \<and> re_search True (fst (snd sg)) txt = Some m
           \<and> m_text m = take (m_end m - m_start m) (drop (m_start m) txt)
           \<and> (\<forall>i < m_start m. ms True (fst (snd sg)) (drop i txt, []) = [])"
    by auto
  have t1: "format_detected a \<noteq> ''json'' \<longrightarrow> txt = log"
    using assms fmt analysis_text_other [of ?fmt log] by auto
  have unwrapped: "unwrap_json log = Inr log \<Longrightarrow> txt = log"
    using assms by (cases "?fmt = ''json''") (simp_all add: analysis_text_def)
  have t2: "json_loads log = None \<longrightarrow> txt = log"
    using unwrapped unwrap_json_None by blast
  have t3: "\<forall>v. json_loads log = Some v \<and> (\<forall>d. v \<noteq> JObj d) \<longrightarrow> txt = log"
    using unwrapped unwrap_json_other by blast
  have t4: "\<forall>d. format_detected a = ''json'' \<and> json_loads log = Some (JObj d) \<longrightarrow>
           rebuild_log d = Inr txt"
    using assms fmt by (auto simp: analysis_text_def unwrap_json_dict)
  show ?thesis
    using a errs rel len left t1 t2 t3 t4 by (intro exI [of _ a] conjI) assumption+
qed

lemma two_signature_frames: "extract_stack_frames two_signature_log = []"
  by code_simp

lemma two_signature_text: "analysis_text ''plain'' two_signature_log = Inr two_signature_log"
  by (simp add: analysis_text_def)

theorem analysis_errors_found_witness:
  "analysis_text (if ''plain'' = ''auto'' then detect_log_format two_signature_log else ''plain'')
     two_signature_log = Inr two_signature_log
   \<and> analyze_error two_signature_log ''plain'' =
       Inr \<lparr>format_detected = ''plain'',
            errors_found =
              [\<lparr>err_pattern = ''ValueError: (.+)'',
                err_match = ''valueerror: etimedout'',
                err_explanation =
                  ''Invalid value: etimedout. Validate input data before processing.''\<rparr>,
               \<lparr>err_pattern = ''TimeoutError|ETIMEDOUT'',
                err_match = ''etimedout'',
                err_explanation =
                  ''Connection timed out. Check network connectivity and service availability.''\<rparr>],
            suggestions = general_suggestions,
            stack_frames = []\<rparr>
   \<and> length (matching ERROR_PATTERNS two_signature_log) = 2"
proof -
  have h: "analysis_text
      (if ''plain'' = ''auto'' then detect_log_format two_signature_log else ''plain'')
      two_signature_log = Inr two_signature_log"
    using two_signature_text by simp
  have eval: "analyze_error two_signature_log ''plain'' =
       Inr \<lparr>format_detected = ''plain'',
            errors_found =
              [\<lparr>err_pattern = ''ValueError: (.+)'',
                err_match = ''valueerror: etimedout'',
                err_explanation =
                  ''Invalid value: etimedout. Validate input data before processing.''\<rparr>,
               \<lparr>err_pattern = ''TimeoutError|ETIMEDOUT'',
                err_match = ''etimedout'',
                err_explanation =
                  ''Connection timed out. Check network connectivity and service availability.''\<rparr>],
            suggestions = general_suggestions,
            stack_frames = []\<rparr>"
    unfolding analyze_error_eq
    by (simp add: two_signature_text two_signature_errors two_signature_frames)
  from analysis_errors_found [OF h] obtain a
    where "analyze_error two_signature_log ''plain'' = Inr a"
      and "list_all2 entry_of (errors_found a) (matching ERROR_PATTERNS two_signature_log)"
    by blast
  with eval have "length (matching ERROR_PATTERNS two_signature_log) = 2"
    by (auto dest: list_all2_lengthD)
  with h eval show ?thesis by simp
qed

text \<open>
  The specification has the signatures searched in the input text. A JSON object whose text holds a
  key-error line under a key that the unwrapping does not read: the key-error signature
  matches the input text, and the analysis, made on the rebuilt text, has no entry.
\<close>

definition unread_key_log :: string where
  \<open>unread_key_log = ''{"msg": "KeyError: 'user_id'' @ apos @ ''"}''\<close>

lemma unread_key_search:
  \<open>map_option (\<lambda>m. (m_start m, m_text m, group m 1))
      (re_search True (fst (snd sig_key_error)) unread_key_log) =
     Some (9, ''KeyError: 'user_id'' @ apos, Some ''user_id'')\<close>
  by code_simp

lemma unread_key_analysis:
  "analyze_error unread_key_log ''auto'' =
     Inr \<lparr>format_detected = ''json'', errors_found = [],
          suggestions = no_pattern_suggestion # general_suggestions, stack_frames = []\<rparr>"
  by code_simp

theorem errors_not_from_input_text:
  \<open>map_option (\<lambda>m. (m_start m, m_text m, group m 1))
      (re_search True (fst (snd sig_key_error)) unread_key_log) =
     Some (9, ''KeyError: 'user_id'' @ apos, Some ''user_id'')
   \<and> analyze_error unread_key_log ''auto'' =
       Inr \<lparr>format_detected = ''json'', errors_found = [],
            suggestions = no_pattern_suggestion # general_suggestions, stack_frames = []\<rparr>\<close>
  using unread_key_search unread_key_analysis by simp

section \<open>The frames of an analysis\<close>

text \<open>
  What the text after unwrapping is, case by case.
\<close>

lemma analysis_text_cases:
  assumes "analysis_text fmt log = Inr body"
  shows "fmt \<noteq> ''json'' \<longrightarrow> body = log"
    and "json_loads log = None \<longrightarrow> body = log"
    and "\<forall>v. json_loads log = Some v \<and> (\<forall>d. v \<noteq> JObj d) \<longrightarrow> body = log"
    and "\<forall>d. fmt = ''json'' \<and> json_loads log = Some (JObj d) \<longrightarrow> rebuild_log d = Inr body"
proof -
  show 1: "fmt \<noteq> ''json'' \<longrightarrow> body = log"
    using assms analysis_text_other [of fmt log] by auto
  have unwrapped: "unwrap_json log = Inr log \<Longrightarrow> body = log"
    using assms by (cases "fmt = ''json''") (simp_all add: analysis_text_def)
  show "json_loads log = None \<longrightarrow> body = log"
    using unwrapped unwrap_json_None by blast
  show "\<forall>v. json_loads log = Some v \<and> (\<forall>d. v \<noteq> JObj d) \<longrightarrow> body = log"
    using unwrapped unwrap_json_other by blast
  show "\<forall>d. fmt = ''json'' \<and> json_loads log = Some (JObj d) \<longrightarrow> rebuild_log d = Inr body"
    using assms by (auto simp: analysis_text_def unwrap_json_dict)
qed

text \<open>
  C1, as the code has it. \<open>analyze_error\<close> assigns the rebuilt text to \<open>log\<close> before it
  extracts the frames, so the frames of the analysis are those of the text after the
  unwrapping step, the same text the signatures are searched in. Whenever that step
  returns a text, \<open>analyze_error\<close> returns an analysis whose \<open>stack_frames\<close> is the result
  of \<open>extract_stack_frames\<close> on that text. That text is the input, and the frames are
  those of the input, when the format is not \<open>json\<close>, when the input does not decode, or
  when it decodes to a value that is not a dictionary; for a dictionary it is the text
  rebuilt from the dictionary.
\<close>

theorem analysis_stack_frames:
  assumes "analysis_text (if hint = ''auto'' then detect_log_format log else hint) log = Inr body"
  shows "\<exists>a. analyze_error log hint = Inr a
     \<and> format_detected a = (if hint = ''auto'' then detect_log_format log else hint)
     \<and> stack_frames a = extract_stack_frames body
     \<and> (format_detected a \<noteq> ''json'' \<longrightarrow>
           body = log \<and> stack_frames a = extract_stack_frames log)
     \<and> (json_loads log = None \<longrightarrow>
           body = log \<and> stack_frames a = extract_stack_frames log)
     \<and> (\<forall>v. json_loads log = Some v \<and> (\<forall>d. v \<noteq> JObj d) \<longrightarrow>
           body = log \<and> stack_frames a = extract_stack_frames log)
     \<and> (\<forall>d. format_detected a = ''json'' \<and> json_loads log = Some (JObj d) \<longrightarrow>
           rebuild_log d = Inr body)"
proof -
  let ?fmt = "if hint = ''auto'' then detect_log_format log else hint"
  from analyze_error_returns [OF assms] obtain a
    where a: "analyze_error log hint = Inr a"
      and fmt: "format_detected a = ?fmt"
      and frames: "stack_frames a = extract_stack_frames body" by blast
  note cases = analysis_text_cases [OF assms]
  have t1: "format_detected a \<noteq> ''json'' \<longrightarrow>
           body = log \<and> stack_frames a = extract_stack_frames log"
    using cases(1) fmt frames by simp
  have t2: "json_loads log = None \<longrightarrow>
           body = log \<and> stack_frames a = extract_stack_frames log"
    using cases(2) frames by simp
  have t3: "\<forall>v. json_loads log = Some v \<and> (\<forall>d. v \<noteq> JObj d) \<longrightarrow>
           body = log \<and> stack_frames a = extract_stack_frames log"
  proof (intro allI impI)
    fix v
    assume "json_loads log = Some v \<and> (\<forall>d. v \<noteq> JObj d)"
    with cases(3) have "body = log" by blast
    with frames show "body = log \<and> stack_frames a = extract_stack_frames log" by simp
  qed
  have t4: "\<forall>d. format_detected a = ''json'' \<and> json_loads log = Some (JObj d) \<longrightarrow>
           rebuild_log d = Inr body"
    using cases(4) fmt by simp
  show ?thesis
    using a fmt frames t1 t2 t3 t4 by (intro exI [of _ a] conjI) assumption+
qed

text \<open>
  A JSON object whose \<open>stack\<close> holds a frame line: the frame of the analysis is the one
  found in the rebuilt text.
\<close>

definition stack_key_log :: string where
  \<open>stack_key_log = ''{"stack":"at f (a:1:2)"}''\<close>

lemma stack_key_format: "detect_log_format stack_key_log = ''json''"
  by code_simp

lemma stack_key_text: "analysis_text ''json'' stack_key_log = Inr ''  at f (a:1:2)''"
  by code_simp

lemma stack_key_frames:
  "extract_stack_frames ''  at f (a:1:2)'' =
     [\<lparr>frame_file = Some ''a'', frame_line = Some ''1'', frame_function = Some ''f''\<rparr>]"
  by code_simp

theorem analysis_stack_frames_witness:
  "analysis_text (if ''auto'' = ''auto'' then detect_log_format stack_key_log else ''auto'')
     stack_key_log = Inr ''  at f (a:1:2)''
   \<and> (\<exists>a. analyze_error stack_key_log ''auto'' = Inr a
          \<and> format_detected a = ''json''
          \<and> stack_frames a =
              [\<lparr>frame_file = Some ''a'', frame_line = Some ''1'',
                frame_function = Some ''f''\<rparr>])"
proof -
  have h: "analysis_text
      (if ''auto'' = ''auto'' then detect_log_format stack_key_log else ''auto'')
      stack_key_log = Inr ''  at f (a:1:2)''"
    using stack_key_text by (simp add: stack_key_format)
  from analysis_stack_frames [OF h] obtain a
    where "analyze_error stack_key_log ''auto'' = Inr a"
      and "format_detected a =
             (if ''auto'' = ''auto'' then detect_log_format stack_key_log else ''auto'')"
      and "stack_frames a = extract_stack_frames ''  at f (a:1:2)''"
    by blast
  then have "\<exists>a. analyze_error stack_key_log ''auto'' = Inr a
          \<and> format_detected a = ''json''
          \<and> stack_frames a =
              [\<lparr>frame_file = Some ''a'', frame_line = Some ''1'',
                frame_function = Some ''f''\<rparr>]"
    by (auto simp: stack_key_format stack_key_frames)
  with h show ?thesis by simp
qed

text \<open>
  The specification has the frames extracted from the input text. A JSON object that holds
  a frame line under a key the unwrapping does not read: the input text has one frame,
  and the analysis, made on the rebuilt text, has none.
\<close>

definition other_key_log :: string where
  \<open>other_key_log = ''{"m":"at f (a:1:2)"}''\<close>

lemma other_key_frames:
  "extract_stack_frames other_key_log =
     [\<lparr>frame_file = Some ''a'', frame_line = Some ''1'', frame_function = Some ''f''\<rparr>]"
  by code_simp

lemma other_key_analysis:
  "analyze_error other_key_log ''auto'' =
     Inr \<lparr>format_detected = ''json'', errors_found = [],
          suggestions = no_pattern_suggestion # general_suggestions, stack_frames = []\<rparr>"
  by code_simp

theorem frames_not_from_input_text:
  "extract_stack_frames other_key_log =
     [\<lparr>frame_file = Some ''a'', frame_line = Some ''1'', frame_function = Some ''f''\<rparr>]
   \<and> analyze_error other_key_log ''auto'' =
       Inr \<lparr>format_detected = ''json'', errors_found = [],
            suggestions = no_pattern_suggestion # general_suggestions, stack_frames = []\<rparr>"
  using other_key_frames other_key_analysis by simp

section \<open>The empty text\<close>

lemma empty_text_analysis:
  "analyze_error [] ''auto'' =
     Inr \<lparr>format_detected = ''plain'', errors_found = [],
          suggestions = no_pattern_suggestion # general_suggestions, stack_frames = []\<rparr>"
  by code_simp

text \<open>
  C2, as the code has it. The analysis of the empty text with the hint \<open>auto\<close> has the
  format \<open>plain\<close>, no error and no frame, and four suggestions: the sentence about
  unknown patterns, added because no error was found, and then the three general ones.
\<close>

theorem empty_text_four_suggestions:
  "analyze_error [] ''auto'' =
     Inr \<lparr>format_detected = ''plain'', errors_found = [],
          suggestions =
            [''No known error patterns matched. Review the full log for context.'',
             ''Add logging around the error location for more context'',
             ''Check if this error is reproducible consistently'',
             ''Review recent code changes that might have caused this''],
          stack_frames = []\<rparr>"
  using empty_text_analysis by (simp add: no_pattern_suggestion_def general_suggestions_def)

text \<open>
  The specification gives the three general suggestions and nothing else: the analysis
  of the empty text is not that result, and its list of suggestions has four elements,
  the first of them the sentence about unknown patterns.
\<close>

theorem empty_text_not_three_suggestions:
  "analyze_error [] ''auto'' \<noteq>
     Inr \<lparr>format_detected = ''plain'', errors_found = [],
          suggestions = general_suggestions, stack_frames = []\<rparr>
   \<and> (\<exists>a. analyze_error [] ''auto'' = Inr a
          \<and> length (suggestions a) = 4
          \<and> hd (suggestions a) = no_pattern_suggestion
          \<and> tl (suggestions a) = general_suggestions)"
  using empty_text_analysis by (simp add: general_suggestions_def)

section \<open>A message that is not a string\<close>

definition number_message_log :: string where
  \<open>number_message_log = ''{"message": 1}''\<close>

lemma number_message_analysis:
  "analyze_error number_message_log ''auto'' =
     Inl (TypeError (''unsupported operand type(s) for +: 'int' and 'str'' @ apos))"
  by code_simp

text \<open>
  C4. The text \<open>{"message": 1}\<close> decodes to a dictionary whose \<open>message\<close> is a number. The
  unwrapping adds a string to it, which raises a \<open>TypeError\<close>: \<open>analyze_error\<close> raises,
  with the hint \<open>auto\<close> as with the hint \<open>json\<close>, and there is no analysis to format.
\<close>

theorem number_message_raises:
  "analyze_error number_message_log ''auto'' =
     Inl (TypeError (''unsupported operand type(s) for +: 'int' and 'str'' @ apos))
   \<and> analyze_error number_message_log ''json'' =
     Inl (TypeError (''unsupported operand type(s) for +: 'int' and 'str'' @ apos))
   \<and> map_sum id format_analysis (analyze_error number_message_log ''auto'') =
     Inl (TypeError (''unsupported operand type(s) for +: 'int' and 'str'' @ apos))"
proof -
  have "analyze_error number_message_log ''json'' =
     Inl (TypeError (''unsupported operand type(s) for +: 'int' and 'str'' @ apos))"
    by code_simp
  then show ?thesis using number_message_analysis by simp
qed

section \<open>A JSON text that is not an object\<close>

text \<open>
  C10. When the format is \<open>json\<close>, given as the hint or detected, and the text decodes to
  a value that is not a dictionary, the unwrapping leaves the text as it is and raises
  nothing: \<open>analyze_error\<close> returns an analysis whose format is \<open>json\<close>, whose errors are
  the entries of the registry's signatures in the input text, and whose frames are those
  of the input text.
\<close>

theorem json_non_mapping_unchanged:
  assumes "json_loads log = Some v" and "\<forall>d. v \<noteq> JObj d"
    and "hint = ''json'' \<or> hint = ''auto''"
  shows "analysis_text ''json'' log = Inr log
     \<and> (\<exists>a. analyze_error log hint = Inr a
          \<and> format_detected a = ''json''
          \<and> find_errors ERROR_PATTERNS log [] = Inr (errors_found a)
          \<and> list_all2 entry_of (errors_found a) (matching ERROR_PATTERNS log)
          \<and> stack_frames a = extract_stack_frames log)"
proof -
  let ?fmt = "if hint = ''auto'' then detect_log_format log else hint"
  from assms(1) have "detect_log_format log = ''json''"
    by (simp add: detect_log_format_def)
  with assms(3) have fmt: "?fmt = ''json''" by auto
  from assms(2) have "\<And>d. v \<noteq> JObj d" by simp
  from unwrap_json_other [OF assms(1) this]
  have body: "analysis_text ''json'' log = Inr log" by (simp add: analysis_text_json)
  with fmt have "analysis_text ?fmt log = Inr log" by simp
  from analyze_error_returns [OF this] fmt obtain a
    where a: "analyze_error log hint = Inr a"
      and f: "format_detected a = ''json''"
      and errs: "find_errors ERROR_PATTERNS log [] = Inr (errors_found a)"
      and frames: "stack_frames a = extract_stack_frames log" by auto
  from find_errors_entries [OF errs]
  have rel: "list_all2 entry_of (errors_found a) (matching ERROR_PATTERNS log)" by simp
  from a f errs rel frames
  have "\<exists>a. analyze_error log hint = Inr a
          \<and> format_detected a = ''json''
          \<and> find_errors ERROR_PATTERNS log [] = Inr (errors_found a)
          \<and> list_all2 entry_of (errors_found a) (matching ERROR_PATTERNS log)
          \<and> stack_frames a = extract_stack_frames log" by blast
  with body show ?thesis by simp
qed

text \<open>A JSON string that holds the name of a timeout error.\<close>

definition json_string_log :: string where
  \<open>json_string_log = ''"ETIMEDOUT"''\<close>

lemma json_string_value: "json_loads json_string_log = Some (JStr ''ETIMEDOUT'')"
  by code_simp

lemma json_string_errors:
  "find_errors ERROR_PATTERNS json_string_log [] =
     Inr [\<lparr>err_pattern = ''TimeoutError|ETIMEDOUT'', err_match = ''ETIMEDOUT'',
           err_explanation =
             ''Connection timed out. Check network connectivity and service availability.''\<rparr>]"
  by code_simp

lemma json_string_frames: "extract_stack_frames json_string_log = []"
  by code_simp

theorem json_non_mapping_unchanged_witness:
  "json_loads json_string_log = Some (JStr ''ETIMEDOUT'')
   \<and> (\<exists>a. analyze_error json_string_log ''auto'' = Inr a
          \<and> format_detected a = ''json''
          \<and> errors_found a =
              [\<lparr>err_pattern = ''TimeoutError|ETIMEDOUT'', err_match = ''ETIMEDOUT'',
                err_explanation =
                  ''Connection timed out. Check network connectivity and service availability.''\<rparr>]
          \<and> stack_frames a = [])"
proof -
  have nd: "\<forall>d. JStr ''ETIMEDOUT'' \<noteq> JObj d" by simp
  have "''auto'' = ''json'' \<or> ''auto'' = ''auto''" by simp
  from json_non_mapping_unchanged [OF json_string_value nd this] obtain a
    where "analyze_error json_string_log ''auto'' = Inr a"
      and "format_detected a = ''json''"
      and "find_errors ERROR_PATTERNS json_string_log [] = Inr (errors_found a)"
      and "stack_frames a = extract_stack_frames json_string_log" by blast
  then have "\<exists>a. analyze_error json_string_log ''auto'' = Inr a
          \<and> format_detected a = ''json''
          \<and> errors_found a =
              [\<lparr>err_pattern = ''TimeoutError|ETIMEDOUT'', err_match = ''ETIMEDOUT'',
                err_explanation =
                  ''Connection timed out. Check network connectivity and service availability.''\<rparr>]
          \<and> stack_frames a = []"
    by (auto simp: json_string_errors json_string_frames)
  with json_string_value show ?thesis by simp
qed

section \<open>The command\<close>

lemma execute_no_log:
  assumes "args ''log'' = None \<or> args ''log'' = Some []"
  shows "execute fs args =
     \<lparr>cmd_success = False, cmd_output = [],
      cmd_error = Some ''No log input provided. Use log='...' to provide error text.''\<rparr>"
  using assms by (auto simp: execute_def)

lemma execute_read_failure:
  assumes "args ''log'' = Some path" and "path \<noteq> []" and "fs path = Some (Inl msg)"
  shows "execute fs args =
     \<lparr>cmd_success = False, cmd_output = [],
      cmd_error = Some (''Failed to read log file: '' @ msg)\<rparr>"
  using assms by (simp add: execute_def)

lemma execute_analysis:
  assumes "args ''log'' = Some path" and "path \<noteq> []"
    and "fs path = None \<and> body = path \<or> fs path = Some (Inr body)"
  shows "execute fs args =
     (case analyze_error body (case args ''format'' of Some v \<Rightarrow> v | None \<Rightarrow> ''auto'') of
        Inl e \<Rightarrow>
          \<lparr>cmd_success = False, cmd_output = [],
           cmd_error = Some (''Analysis failed: '' @ exn_text e)\<rparr>
      | Inr a \<Rightarrow> \<lparr>cmd_success = True, cmd_output = format_analysis a, cmd_error = None\<rparr>)"
  using assms by (auto simp: execute_def)

lemma execute_failure_output:
  assumes "\<not> cmd_success (execute fs args)"
  shows "cmd_output (execute fs args) = [] \<and> cmd_error (execute fs args) \<noteq> None"
proof (cases "args ''log'' = None \<or> args ''log'' = Some []")
  case True
  then show ?thesis by (simp add: execute_no_log [of args fs])
next
  case False
  then obtain path where path: "args ''log'' = Some path" "path \<noteq> []" by auto
  show ?thesis
  proof (cases "fs path")
    case None
    then have "fs path = None \<and> path = path \<or> fs path = Some (Inr path)" by simp
    from execute_analysis [where fs = fs and args = args, OF path this] assms show ?thesis
      by (cases "analyze_error path (case args ''format'' of Some v \<Rightarrow> v | None \<Rightarrow> ''auto'')")
        simp_all
  next
    case (Some content)
    show ?thesis
    proof (cases content)
      case (Inl msg)
      with Some have "fs path = Some (Inl msg)" by simp
      from execute_read_failure [where fs = fs and args = args, OF path this] show ?thesis by simp
    next
      case (Inr body)
      with Some have "fs path = None \<and> body = path \<or> fs path = Some (Inr body)" by simp
      from execute_analysis [where fs = fs and args = args, OF path this] assms show ?thesis
        by (cases "analyze_error body (case args ''format'' of Some v \<Rightarrow> v | None \<Rightarrow> ''auto'')")
          simp_all
    qed
  qed
qed

text \<open>
  C9. \<open>execute\<close>, on arguments that are strings, returns a result on every path. With no
  \<open>log\<close> argument, or an empty one, the result is a failure with a fixed message. When
  \<open>log\<close> names a file whose reading raises, it is a failure whose message holds the text
  of that exception. When the analysis of the text, the argument itself or the content
  of the file it names, raises, it is a failure whose message is \<open>Analysis failed: \<close>
  followed by the text of the exception; when the analysis returns, it is a success with
  the report. Every failure has the empty output and an error message.
\<close>

theorem execute_failure_paths:
  "(args ''log'' = None \<or> args ''log'' = Some [] \<longrightarrow>
      execute fs args =
        \<lparr>cmd_success = False, cmd_output = [],
         cmd_error = Some ''No log input provided. Use log='...' to provide error text.''\<rparr>)
   \<and> (\<forall>path msg. args ''log'' = Some path \<and> path \<noteq> [] \<and> fs path = Some (Inl msg) \<longrightarrow>
      execute fs args =
        \<lparr>cmd_success = False, cmd_output = [],
         cmd_error = Some (''Failed to read log file: '' @ msg)\<rparr>)
   \<and> (\<forall>path body e. args ''log'' = Some path \<and> path \<noteq> []
        \<and> (fs path = None \<and> body = path \<or> fs path = Some (Inr body))
        \<and> analyze_error body (case args ''format'' of Some v \<Rightarrow> v | None \<Rightarrow> ''auto'') = Inl e \<longrightarrow>
      execute fs args =
        \<lparr>cmd_success = False, cmd_output = [],
         cmd_error = Some (''Analysis failed: '' @ exn_text e)\<rparr>)
   \<and> (\<forall>path body a. args ''log'' = Some path \<and> path \<noteq> []
        \<and> (fs path = None \<and> body = path \<or> fs path = Some (Inr body))
        \<and> analyze_error body (case args ''format'' of Some v \<Rightarrow> v | None \<Rightarrow> ''auto'') = Inr a \<longrightarrow>
      execute fs args =
        \<lparr>cmd_success = True, cmd_output = format_analysis a, cmd_error = None\<rparr>)
   \<and> (\<not> cmd_success (execute fs args) \<longrightarrow>
        cmd_output (execute fs args) = [] \<and> cmd_error (execute fs args) \<noteq> None)"
proof -
  have 1: "args ''log'' = None \<or> args ''log'' = Some [] \<longrightarrow>
      execute fs args =
        \<lparr>cmd_success = False, cmd_output = [],
         cmd_error = Some ''No log input provided. Use log='...' to provide error text.''\<rparr>"
    using execute_no_log by blast
  have 2: "\<forall>path msg. args ''log'' = Some path \<and> path \<noteq> [] \<and> fs path = Some (Inl msg) \<longrightarrow>
      execute fs args =
        \<lparr>cmd_success = False, cmd_output = [],
         cmd_error = Some (''Failed to read log file: '' @ msg)\<rparr>"
    using execute_read_failure by blast
  have 3: "\<forall>path body e. args ''log'' = Some path \<and> path \<noteq> []
        \<and> (fs path = None \<and> body = path \<or> fs path = Some (Inr body))
        \<and> analyze_error body (case args ''format'' of Some v \<Rightarrow> v | None \<Rightarrow> ''auto'') = Inl e \<longrightarrow>
      execute fs args =
        \<lparr>cmd_success = False, cmd_output = [],
         cmd_error = Some (''Analysis failed: '' @ exn_text e)\<rparr>"
  proof (intro allI impI)
    fix path body e
    assume h: "args ''log'' = Some path \<and> path \<noteq> []
        \<and> (fs path = None \<and> body = path \<or> fs path = Some (Inr body))
        \<and> analyze_error body (case args ''format'' of Some v \<Rightarrow> v | None \<Rightarrow> ''auto'') = Inl e"
    then have p: "args ''log'' = Some path" and ne: "path \<noteq> []"
      and f: "fs path = None \<and> body = path \<or> fs path = Some (Inr body)" by blast+
    from execute_analysis [where fs = fs and args = args, OF p ne f] h show "execute fs args =
        \<lparr>cmd_success = False, cmd_output = [],
         cmd_error = Some (''Analysis failed: '' @ exn_text e)\<rparr>" by simp
  qed
  have 4: "\<forall>path body a. args ''log'' = Some path \<and> path \<noteq> []
        \<and> (fs path = None \<and> body = path \<or> fs path = Some (Inr body))
        \<and> analyze_error body (case args ''format'' of Some v \<Rightarrow> v | None \<Rightarrow> ''auto'') = Inr a \<longrightarrow>
      execute fs args =
        \<lparr>cmd_success = True, cmd_output = format_analysis a, cmd_error = None\<rparr>"
  proof (intro allI impI)
    fix path body a
    assume h: "args ''log'' = Some path \<and> path \<noteq> []
        \<and> (fs path = None \<and> body = path \<or> fs path = Some (Inr body))
        \<and> analyze_error body (case args ''format'' of Some v \<Rightarrow> v | None \<Rightarrow> ''auto'') = Inr a"
    then have p: "args ''log'' = Some path" and ne: "path \<noteq> []"
      and f: "fs path = None \<and> body = path \<or> fs path = Some (Inr body)" by blast+
    from execute_analysis [where fs = fs and args = args, OF p ne f] h show "execute fs args =
        \<lparr>cmd_success = True, cmd_output = format_analysis a, cmd_error = None\<rparr>" by simp
  qed
  have 5: "\<not> cmd_success (execute fs args) \<longrightarrow>
        cmd_output (execute fs args) = [] \<and> cmd_error (execute fs args) \<noteq> None"
    using execute_failure_output by blast
  show ?thesis
    using 1 2 3 4 5 by (intro conjI) assumption+
qed

text \<open>
  The three failures on concrete arguments: no argument at all; a file that cannot be
  read; and a text, given directly, whose analysis raises.
\<close>

theorem execute_failure_paths_witness:
  "execute (\<lambda>p. None) Map.empty =
     \<lparr>cmd_success = False, cmd_output = [],
      cmd_error = Some ''No log input provided. Use log='...' to provide error text.''\<rparr>
   \<and> execute (\<lambda>p. Some (Inl ''denied'')) [''log'' \<mapsto> ''a.log''] =
     \<lparr>cmd_success = False, cmd_output = [],
      cmd_error = Some ''Failed to read log file: denied''\<rparr>
   \<and> execute (\<lambda>p. None) [''log'' \<mapsto> number_message_log] =
     \<lparr>cmd_success = False, cmd_output = [],
      cmd_error = Some (''Analysis failed: unsupported operand type(s) for +: 'int' and 'str''
                        @ apos)\<rparr>"
proof -
  have a: "execute (\<lambda>p. None) Map.empty =
     \<lparr>cmd_success = False, cmd_output = [],
      cmd_error = Some ''No log input provided. Use log='...' to provide error text.''\<rparr>"
    using execute_failure_paths [where args = Map.empty and fs = "\<lambda>p. None"] by simp
  from execute_failure_paths
    [where args = "[''log'' \<mapsto> ''a.log'']" and fs = "\<lambda>p. Some (Inl ''denied'')"]
  have "\<forall>path msg. [''log'' \<mapsto> ''a.log''] ''log'' = Some path \<and> path \<noteq> []
          \<and> Some (Inl ''denied'') = Some (Inl msg) \<longrightarrow>
      execute (\<lambda>p. Some (Inl ''denied'')) [''log'' \<mapsto> ''a.log''] =
        \<lparr>cmd_success = False, cmd_output = [],
         cmd_error = Some (''Failed to read log file: '' @ msg)\<rparr>"
    by blast
  then have b: "execute (\<lambda>p. Some (Inl ''denied'')) [''log'' \<mapsto> ''a.log''] =
     \<lparr>cmd_success = False, cmd_output = [],
      cmd_error = Some ''Failed to read log file: denied''\<rparr>"
    by simp
  have ne: "number_message_log \<noteq> []" by (simp add: number_message_log_def)
  from execute_failure_paths
    [where args = "[''log'' \<mapsto> number_message_log]" and fs = "\<lambda>p. None"]
  have "\<forall>path body e. [''log'' \<mapsto> number_message_log] ''log'' = Some path \<and> path \<noteq> []
        \<and> (None = None \<and> body = path \<or> None = Some (Inr body))
        \<and> analyze_error body
             (case [''log'' \<mapsto> number_message_log] ''format'' of Some v \<Rightarrow> v | None \<Rightarrow> ''auto'')
            = Inl e \<longrightarrow>
      execute (\<lambda>p. None) [''log'' \<mapsto> number_message_log] =
        \<lparr>cmd_success = False, cmd_output = [],
         cmd_error = Some (''Analysis failed: '' @ exn_text e)\<rparr>"
    by blast
  from this [rule_format, of number_message_log number_message_log
      "TypeError (''unsupported operand type(s) for +: 'int' and 'str'' @ apos)"]
  have c: "execute (\<lambda>p. None) [''log'' \<mapsto> number_message_log] =
     \<lparr>cmd_success = False, cmd_output = [],
      cmd_error = Some (''Analysis failed: unsupported operand type(s) for +: 'int' and 'str''
                        @ apos)\<rparr>"
    using ne number_message_analysis by simp
  from a b c show ?thesis by (intro conjI)
qed

end
